theory Spec2Isabelle
  imports Main "HOL-Library.Word" "HOL-Library.Signed_Division"
begin

unbundle bit_operations_syntax

section \<open>SFMT: the seeding, certification, comparison and bulk-fill entry points\<close>

text \<open>
  The development embeds \<^verbatim>\<open>CvGameCoreDLL_Expansion2/SFMT/SFMT.cpp\<close>.
  C's \<^verbatim>\<open>uint32_t\<close> is \<open>32 word\<close> (arithmetic wraps), C's \<^verbatim>\<open>int\<close> is
  \<open>int\<close>; every \<^verbatim>\<open>int\<close> of the file is a loop counter, an index below
  \<^verbatim>\<open>SFMT_N32 + SFMT_N32\<close> or the key length, so no signed overflow is in reach
  except \<^verbatim>\<open>key_length + 1\<close> at \<^verbatim>\<open>INT_MAX\<close>, which no array can have as its length.
  C's \<^verbatim>\<open>/\<close> and \<^verbatim>\<open>%\<close> truncate: \<open>sdiv\<close> and \<open>smod\<close>.
\<close>

type_synonym u32 = "32 word"
type_synonym u64 = "64 word"
type_synonym u8 = "8 word"

subsection \<open>Parameter set\<close>

text \<open>
  \<^verbatim>\<open>SFMT-params.h\<close> is not part of the sources at hand, so the compile-time constants
  are a parameter of every function below: the Mersenne exponent and the four parity
  constants. The doc comments of \<^verbatim>\<open>sfmt_fill_array32\<close> and \<^verbatim>\<open>sfmt_fill_array64\<close>
  give the derived sizes: the minimum array sizes \<^verbatim>\<open>SFMT_N32\<close> and \<^verbatim>\<open>SFMT_N64\<close> are
  \<^verbatim>\<open>(MEXP / 128 + 1) * 4\<close> and \<^verbatim>\<open>(MEXP / 128 + 1) * 2\<close>, and
  \<^verbatim>\<open>sfmt_init_by_array\<close> computes the size in 32-bit words as \<^verbatim>\<open>SFMT_N * 4\<close>.
\<close>

record sfmt_params =
  SFMT_MEXP :: nat
  SFMT_PARITY1 :: u32
  SFMT_PARITY2 :: u32
  SFMT_PARITY3 :: u32
  SFMT_PARITY4 :: u32

definition SFMT_N :: "sfmt_params \<Rightarrow> int" where
  "SFMT_N p = int (SFMT_MEXP p div 128) + 1"

definition SFMT_N32 :: "sfmt_params \<Rightarrow> int" where
  "SFMT_N32 p = SFMT_N p * 4"

definition SFMT_N64 :: "sfmt_params \<Rightarrow> int" where
  "SFMT_N64 p = SFMT_N p * 2"

text \<open>The parameter set of the default exponent 19937 (624 words of 32 bits).\<close>

definition params19937 :: sfmt_params where
  "params19937 = \<lparr> SFMT_MEXP = 19937, SFMT_PARITY1 = 0x00000001, SFMT_PARITY2 = 0x00000000,
     SFMT_PARITY3 = 0x00000000, SFMT_PARITY4 = 0x13c9e684 \<rparr>"

text \<open>A small parameter set, exponent 607 (20 words of 32 bits), for concrete evaluation.\<close>

definition params607 :: sfmt_params where
  "params607 = \<lparr> SFMT_MEXP = 607, SFMT_PARITY1 = 0x00000001, SFMT_PARITY2 = 0x00000000,
     SFMT_PARITY3 = 0x00000000, SFMT_PARITY4 = 0x5986f054 \<rparr>"

subsection \<open>The generator instance\<close>

text \<open>
  \<^verbatim>\<open>sfmt_t\<close> holds \<^verbatim>\<open>w128_t state[SFMT_N]\<close> and \<^verbatim>\<open>int idx\<close>. Every function but
  the comparison reads the array through \<^verbatim>\<open>psfmt32 = &m_sfmt.state[0].u[0]\<close>, the flat
  view as \<^verbatim>\<open>SFMT_N32\<close> words of 32 bits, so that view is the stored one; the 128-bit
  view of word \<open>k\<close> is the four lanes \<open>4k .. 4k+3\<close>. The array has a fixed size in C;
  here it is a list, and the theorems say where they need its length.
\<close>

record sfmt_t =
  state :: "u32 list"
  idx :: int

definition wf_sfmt :: "sfmt_params \<Rightarrow> sfmt_t \<Rightarrow> bool" where
  "wf_sfmt p g \<longleftrightarrow> length (state g) = nat (SFMT_N32 p)"

datatype fault = AssertionFailed | KeyOutOfBounds

subsection \<open>func1, func2\<close>

definition func1 :: "u32 \<Rightarrow> u32" where
  "func1 x = (x XOR drop_bit 27 x) * 1664525"

definition func2 :: "u32 \<Rightarrow> u32" where
  "func2 x = (x XOR drop_bit 27 x) * 1566083941"

subsection \<open>period_certification\<close>

definition parity :: "sfmt_params \<Rightarrow> u32 list" where
  "parity p = [SFMT_PARITY1 p, SFMT_PARITY2 p, SFMT_PARITY3 p, SFMT_PARITY4 p]"

text \<open>\<^verbatim>\<open>for (; i < 4; i++) inner ^= psfmt32[i] & parity[i];\<close>\<close>

function inner_loop :: "u32 list \<Rightarrow> u32 list \<Rightarrow> int \<Rightarrow> u32 \<Rightarrow> u32" where
  "inner_loop psfmt32 par i inner =
     (if i < 4 then inner_loop psfmt32 par (i + 1) (inner XOR (psfmt32 ! nat i AND par ! nat i))
      else inner)"
  by pat_completeness auto
termination
  by (relation "measure (\<lambda>(psfmt32, par, i, inner). nat (4 - i))") auto

text \<open>
  \<^verbatim>\<open>for (i = 16; i > 0; i >>= 1) inner ^= inner >> i;\<close> where \<^verbatim>\<open>inner\<close> is a signed
  \<^verbatim>\<open>int\<close>: its shift is the arithmetic one, which copies the sign bit.
\<close>

function fold_loop :: "int \<Rightarrow> u32 \<Rightarrow> u32" where
  "fold_loop i inner =
     (if 0 < i then fold_loop (drop_bit 1 i) (inner XOR signed_drop_bit (nat i) inner)
      else inner)"
  by pat_completeness auto
termination
  by (relation "measure (\<lambda>(i, inner). nat i)") (auto simp: drop_bit_eq_div)

text \<open>The check: the folded inner product, masked to one bit (\<^verbatim>\<open>inner &= 1\<close>).\<close>

definition parity_check :: "sfmt_params \<Rightarrow> u32 list \<Rightarrow> u32" where
  "parity_check p psfmt32 = fold_loop 16 (inner_loop psfmt32 (parity p) 0 0) AND 1"

text \<open>
  The inner loop of the modification, \<^verbatim>\<open>for (j = 0; j < 32; j++)\<close>: the result is
  the \<^verbatim>\<open>work\<close> at which the function returns, or \<open>None\<close> when the loop ends.
\<close>

function scan_bits :: "u32 \<Rightarrow> int \<Rightarrow> u32 \<Rightarrow> u32 option" where
  "scan_bits par j work =
     (if j < 32 then
        (if work AND par \<noteq> 0 then Some work else scan_bits par (j + 1) (push_bit 1 work))
      else None)"
  by pat_completeness auto
termination
  by (relation "measure (\<lambda>(par, j, work). nat (32 - j))") auto

text \<open>The outer loop of the modification, \<^verbatim>\<open>for (i = 0; i < 4; i++)\<close>.\<close>

function modify_loop :: "u32 list \<Rightarrow> u32 list \<Rightarrow> int \<Rightarrow> u32 list" where
  "modify_loop psfmt32 par i =
     (if i < 4 then
        (case scan_bits (par ! nat i) 0 1 of
           Some work \<Rightarrow> psfmt32[nat i := psfmt32 ! nat i XOR work]
         | None \<Rightarrow> modify_loop psfmt32 par (i + 1))
      else psfmt32)"
  by pat_completeness auto
termination
  by (relation "measure (\<lambda>(psfmt32, par, i). nat (4 - i))") auto

definition period_certification :: "sfmt_params \<Rightarrow> sfmt_t \<Rightarrow> sfmt_t" where
  "period_certification p g =
     (let psfmt32 = state g;
          inner = parity_check p psfmt32
      in if inner = 1 then g
         else g\<lparr>state := modify_loop psfmt32 (parity p) 0\<rparr>)"

subsection \<open>operator== and operator!=\<close>

text \<open>
  The comparison reads each 128-bit state word through its \<^verbatim>\<open>si\<close> member: sixteen
  bytes, the four 32-bit lanes in order, each lane least significant byte first (the
  file is the SSE2 build for x86). \<^verbatim>\<open>_mm_cmpeq_epi8\<close> gives \<^verbatim>\<open>0xFF\<close> for each pair of
  equal bytes and \<^verbatim>\<open>0x00\<close> otherwise; \<^verbatim>\<open>_mm_movemask_epi8\<close> collects the most
  significant bit of byte \<open>k\<close> into bit \<open>k\<close> of an \<^verbatim>\<open>int\<close>.
\<close>

definition lane_bytes :: "u32 \<Rightarrow> u8 list" where
  "lane_bytes w = [ucast w, ucast (drop_bit 8 w), ucast (drop_bit 16 w), ucast (drop_bit 24 w)]"

definition w128_si :: "u32 list \<Rightarrow> nat \<Rightarrow> u8 list" where
  "w128_si psfmt32 k =
     lane_bytes (psfmt32 ! (4 * k)) @ lane_bytes (psfmt32 ! (4 * k + 1)) @
     lane_bytes (psfmt32 ! (4 * k + 2)) @ lane_bytes (psfmt32 ! (4 * k + 3))"

definition mm_cmpeq_epi8 :: "u8 list \<Rightarrow> u8 list \<Rightarrow> u8 list" where
  "mm_cmpeq_epi8 a b = map (\<lambda>(x, y). if x = y then 0xFF else 0x00) (zip a b)"

definition mm_movemask_epi8 :: "u8 list \<Rightarrow> int" where
  "mm_movemask_epi8 a = foldr (\<lambda>b m. (if bit b 7 then 1 else 0) + 2 * m) a 0"

text \<open>
  The loop over the state words. \<open>Some k\<close> is the \<^verbatim>\<open>return false\<close> inside the loop,
  taken at \<^verbatim>\<open>uiI = k\<close>; \<open>None\<close> is the end of the loop.
\<close>

function compare_loop :: "int \<Rightarrow> u32 list \<Rightarrow> u32 list \<Rightarrow> nat \<Rightarrow> nat option" where
  "compare_loop n pLHSstate pRHSstate uiI =
     (if int uiI < n then
        (if mm_movemask_epi8 (mm_cmpeq_epi8 (w128_si pLHSstate uiI) (w128_si pRHSstate uiI)) \<noteq> 0xffff
         then Some uiI
         else compare_loop n pLHSstate pRHSstate (uiI + 1))
      else None)"
  by pat_completeness auto
termination
  by (relation "measure (\<lambda>(n, l, r, uiI). nat (n - int uiI))") auto

definition op_eq :: "sfmt_params \<Rightarrow> sfmt_t \<Rightarrow> sfmt_t \<Rightarrow> bool" where
  "op_eq p this source =
     (if idx this \<noteq> idx source then False
      else (case compare_loop (SFMT_N p) (state this) (state source) 0 of
              Some uiI \<Rightarrow> False
            | None \<Rightarrow> True))"

definition op_neq :: "sfmt_params \<Rightarrow> sfmt_t \<Rightarrow> sfmt_t \<Rightarrow> bool" where
  "op_neq p this source = (\<not> op_eq p this source)"

subsection \<open>sfmt_fill_array32, sfmt_fill_array64\<close>

text \<open>
  Modelled from the spec: \<^verbatim>\<open>gen_rand_array\<close>, the state recursion, is defined in a header
  that is not part of the sources at hand. The spec (4.1, 4.5) makes it a fixed recurrence
  over the state array that writes the requested number of 128-bit words to the caller's
  buffer and copies the last ones back into the state: a function of the state and of the
  count. It is a parameter here, \<open>gen_rand_array st n = (array, st')\<close>, with the buffer
  and the state as 32-bit lanes. An \<^verbatim>\<open>assert\<close> that fails ends the program
  (the build is one without \<^verbatim>\<open>NDEBUG\<close>): \<open>Inl AssertionFailed\<close>. The argument \<^verbatim>\<open>size\<close> is \<open>sz\<close> (\<open>size\<close> is a constant of HOL).
\<close>

type_synonym gen_rand_array_t = "u32 list \<Rightarrow> int \<Rightarrow> u32 list \<times> u32 list"

definition sfmt_fill_array32 ::
  "sfmt_params \<Rightarrow> gen_rand_array_t \<Rightarrow> sfmt_t \<Rightarrow> int \<Rightarrow> fault + (u32 list \<times> sfmt_t)" where
  "sfmt_fill_array32 p gen_rand_array g sz =
     (if \<not> idx g = SFMT_N32 p then Inl AssertionFailed
      else if \<not> sz smod 4 = 0 then Inl AssertionFailed
      else if \<not> sz \<ge> SFMT_N32 p then Inl AssertionFailed
      else (case gen_rand_array (state g) (sz sdiv 4) of
              (array, st) \<Rightarrow> Inr (array, g\<lparr>state := st, idx := SFMT_N32 p\<rparr>)))"

text \<open>The buffer as \<^verbatim>\<open>uint64_t\<close>: two lanes each, the lower one first.\<close>

fun u64_view :: "u32 list \<Rightarrow> u64 list" where
  "u64_view (lo # hi # ws) = (ucast lo OR push_bit 32 (ucast hi)) # u64_view ws"
| "u64_view ws = []"

definition sfmt_fill_array64 ::
  "sfmt_params \<Rightarrow> gen_rand_array_t \<Rightarrow> sfmt_t \<Rightarrow> int \<Rightarrow> fault + (u64 list \<times> sfmt_t)" where
  "sfmt_fill_array64 p gen_rand_array g sz =
     (if \<not> idx g = SFMT_N32 p then Inl AssertionFailed
      else if \<not> sz smod 2 = 0 then Inl AssertionFailed
      else if \<not> sz \<ge> SFMT_N64 p then Inl AssertionFailed
      else (case gen_rand_array (state g) (sz sdiv 2) of
              (array, st) \<Rightarrow> Inr (u64_view array, g\<lparr>state := st, idx := SFMT_N32 p\<rparr>)))"

subsection \<open>sfmt_init_gen_rand\<close>

text \<open>\<^verbatim>\<open>for (; i < SFMT_N32; i++) psfmt32[i] = 1812433253UL * (...) + i;\<close>\<close>

function init_loop :: "int \<Rightarrow> int \<Rightarrow> u32 list \<Rightarrow> u32 list" where
  "init_loop n32 i psfmt32 =
     (if i < n32 then
        init_loop n32 (i + 1)
          (psfmt32[nat i := 1812433253 *
             (psfmt32 ! nat (i - 1) XOR drop_bit 30 (psfmt32 ! nat (i - 1))) + word_of_int i])
      else psfmt32)"
  by pat_completeness auto
termination
  by (relation "measure (\<lambda>(n32, i, psfmt32). nat (n32 - i))") auto

definition sfmt_init_gen_rand :: "sfmt_params \<Rightarrow> u32 \<Rightarrow> sfmt_t \<Rightarrow> sfmt_t" where
  "sfmt_init_gen_rand p seed g =
     (let psfmt32 = (state g)[0 := seed];
          psfmt32 = init_loop (SFMT_N32 p) 1 psfmt32
      in period_certification p (g\<lparr>state := psfmt32, idx := SFMT_N32 p\<rparr>))"

subsection \<open>sfmt_init_by_array\<close>

definition init_lag :: "int \<Rightarrow> int" where
  "init_lag sz = (if sz \<ge> 623 then 11 else if sz \<ge> 68 then 7 else if sz \<ge> 39 then 5 else 3)"

definition init_mid :: "int \<Rightarrow> int" where
  "init_mid sz = (sz - init_lag sz) sdiv 2"

text \<open>
  \<^verbatim>\<open>memset(&m_sfmt, 0x8b, sizeof(sfmt_t))\<close> fills the state array and \<^verbatim>\<open>idx\<close>.
\<close>

definition memset_0x8b :: "sfmt_params \<Rightarrow> sfmt_t" where
  "memset_0x8b p = \<lparr> state = replicate (nat (SFMT_N p * 4)) 0x8b8b8b8b, idx = sint (0x8b8b8b8b :: u32) \<rparr>"

text \<open>
  The body of the first two loops. They differ in what is added to \<^verbatim>\<open>r\<close> between
  the two updates, \<^verbatim>\<open>init_key[j] + i\<close> or \<^verbatim>\<open>i\<close>: that value is \<open>added\<close>.
\<close>

definition func1_step :: "int \<Rightarrow> int \<Rightarrow> int \<Rightarrow> u32 \<Rightarrow> u32 list \<Rightarrow> int \<Rightarrow> u32 list \<times> int" where
  "func1_step n32 mid lag added psfmt32 i =
     (let r = func1 (psfmt32 ! nat i XOR psfmt32 ! nat ((i + mid) smod n32)
                     XOR psfmt32 ! nat ((i + n32 - 1) smod n32));
          psfmt32 = psfmt32[nat ((i + mid) smod n32) := psfmt32 ! nat ((i + mid) smod n32) + r];
          r = r + added;
          psfmt32 = psfmt32[nat ((i + mid + lag) smod n32) :=
                      psfmt32 ! nat ((i + mid + lag) smod n32) + r];
          psfmt32 = psfmt32[nat i := r]
      in (psfmt32, (i + 1) smod n32))"

text \<open>
  \<^verbatim>\<open>for (; (j < count) && (j < key_length); j++)\<close>. The key is a list: reading
  \<^verbatim>\<open>init_key[j]\<close> beyond its end is the fault \<open>KeyOutOfBounds\<close>. The loop hands on the
  state, \<^verbatim>\<open>i\<close> and \<^verbatim>\<open>j\<close>.
\<close>

function key_loop ::
  "int \<Rightarrow> int \<Rightarrow> int \<Rightarrow> u32 list \<Rightarrow> int \<Rightarrow> int \<Rightarrow> int \<Rightarrow> u32 list \<Rightarrow> int \<Rightarrow> fault + (u32 list \<times> int \<times> int)" where
  "key_loop n32 mid lag init_key key_length count j psfmt32 i =
     (if j < count \<and> j < key_length then
        (if 0 \<le> j \<and> nat j < length init_key then
           (case func1_step n32 mid lag (init_key ! nat j + word_of_int i) psfmt32 i of
              (psfmt32', i') \<Rightarrow> key_loop n32 mid lag init_key key_length count (j + 1) psfmt32' i')
         else Inl KeyOutOfBounds)
      else Inr (psfmt32, i, j))"
  by pat_completeness auto
termination
  by (relation "measure (\<lambda>(n32, mid, lag, init_key, key_length, count, j, psfmt32, i). nat (count - j))")
    auto

text \<open>\<^verbatim>\<open>for (; j < count; j++)\<close>\<close>

function index_loop ::
  "int \<Rightarrow> int \<Rightarrow> int \<Rightarrow> int \<Rightarrow> int \<Rightarrow> u32 list \<Rightarrow> int \<Rightarrow> u32 list \<times> int \<times> int" where
  "index_loop n32 mid lag count j psfmt32 i =
     (if j < count then
        (case func1_step n32 mid lag (word_of_int i) psfmt32 i of
           (psfmt32', i') \<Rightarrow> index_loop n32 mid lag count (j + 1) psfmt32' i')
      else (psfmt32, i, j))"
  by pat_completeness auto
termination
  by (relation "measure (\<lambda>(n32, mid, lag, count, j, psfmt32, i). nat (count - j))") auto

text \<open>The body of the third loop.\<close>

definition func2_step :: "int \<Rightarrow> int \<Rightarrow> int \<Rightarrow> u32 list \<times> int \<Rightarrow> u32 list \<times> int" where
  "func2_step n32 mid lag s =
     (case s of (psfmt32, i) \<Rightarrow>
        let r = func2 (psfmt32 ! nat i + psfmt32 ! nat ((i + mid) smod n32)
                       + psfmt32 ! nat ((i + n32 - 1) smod n32));
            psfmt32 = psfmt32[nat ((i + mid) smod n32) := psfmt32 ! nat ((i + mid) smod n32) XOR r];
            r = r - word_of_int i;
            psfmt32 = psfmt32[nat ((i + mid + lag) smod n32) :=
                        psfmt32 ! nat ((i + mid + lag) smod n32) XOR r];
            psfmt32 = psfmt32[nat i := r]
        in (psfmt32, (i + 1) smod n32))"

text \<open>\<^verbatim>\<open>for (j = 0; j < SFMT_N32; j++)\<close>\<close>

function func2_loop :: "int \<Rightarrow> int \<Rightarrow> int \<Rightarrow> int \<Rightarrow> u32 list \<times> int \<Rightarrow> u32 list \<times> int" where
  "func2_loop n32 mid lag j s =
     (if j < n32 then func2_loop n32 mid lag (j + 1) (func2_step n32 mid lag s) else s)"
  by pat_completeness auto
termination
  by (relation "measure (\<lambda>(n32, mid, lag, j, s). nat (n32 - j))") auto

text \<open>The state array after the memset and the first mixing step (lines 282 to 293).\<close>

definition init_mix :: "sfmt_params \<Rightarrow> int \<Rightarrow> u32 list" where
  "init_mix p key_length =
     (let sz = SFMT_N p * 4;
          lag = init_lag sz;
          mid = init_mid sz;
          psfmt32 = state (memset_0x8b p);
          r = func1 (psfmt32 ! 0 XOR psfmt32 ! nat mid XOR psfmt32 ! nat (SFMT_N32 p - 1));
          psfmt32 = psfmt32[nat mid := psfmt32 ! nat mid + r];
          r = r + word_of_int key_length;
          psfmt32 = psfmt32[nat (mid + lag) := psfmt32 ! nat (mid + lag) + r]
      in psfmt32[0 := r])"

text \<open>
  The function up to the end of its second loop (line 315): the state array,
  \<^verbatim>\<open>i\<close> and \<^verbatim>\<open>j\<close> there.
\<close>

definition init_by_array_keys ::
  "sfmt_params \<Rightarrow> u32 list \<Rightarrow> int \<Rightarrow> fault + (u32 list \<times> int \<times> int)" where
  "init_by_array_keys p init_key key_length =
     (let sz = SFMT_N p * 4;
          lag = init_lag sz;
          mid = init_mid sz;
          count = (if key_length + 1 > SFMT_N32 p then key_length + 1 else SFMT_N32 p);
          psfmt32 = init_mix p key_length;
          count = count - 1
      in case key_loop (SFMT_N32 p) mid lag init_key key_length count 0 psfmt32 1 of
           Inl e \<Rightarrow> Inl e
         | Inr (psfmt32, i, j) \<Rightarrow> Inr (index_loop (SFMT_N32 p) mid lag count j psfmt32 i))"

definition sfmt_init_by_array :: "sfmt_params \<Rightarrow> u32 list \<Rightarrow> int \<Rightarrow> sfmt_t \<Rightarrow> fault + sfmt_t" where
  "sfmt_init_by_array p init_key key_length g =
     (let sz = SFMT_N p * 4;
          lag = init_lag sz;
          mid = init_mid sz
      in case init_by_array_keys p init_key key_length of
           Inl e \<Rightarrow> Inl e
         | Inr (psfmt32, i, j) \<Rightarrow>
             (case func2_loop (SFMT_N32 p) mid lag 0 (psfmt32, i) of
                (psfmt32, i) \<Rightarrow>
                  Inr (period_certification p (memset_0x8b p\<lparr>state := psfmt32, idx := SFMT_N32 p\<rparr>))))"

subsection \<open>Call sequences\<close>

text \<open>
  The calls a host can make on an instance, and the run of a sequence of them: the
  output and the instance after each call, up to the first fault. The array seeding is
  called with the length of its key.
\<close>

datatype call = Init_gen_rand u32 | Init_by_array "u32 list" | Fill_array32 int | Fill_array64 int

datatype drawn = No_output | Words32 "u32 list" | Words64 "u64 list"

fun do_call :: "sfmt_params \<Rightarrow> gen_rand_array_t \<Rightarrow> sfmt_t \<Rightarrow> call \<Rightarrow> fault + (drawn \<times> sfmt_t)" where
  "do_call p gra g (Init_gen_rand seed) = Inr (No_output, sfmt_init_gen_rand p seed g)"
| "do_call p gra g (Init_by_array init_key) =
     (case sfmt_init_by_array p init_key (int (length init_key)) g of
        Inl e \<Rightarrow> Inl e
      | Inr g' \<Rightarrow> Inr (No_output, g'))"
| "do_call p gra g (Fill_array32 sz) =
     (case sfmt_fill_array32 p gra g sz of
        Inl e \<Rightarrow> Inl e
      | Inr (array, g') \<Rightarrow> Inr (Words32 array, g'))"
| "do_call p gra g (Fill_array64 sz) =
     (case sfmt_fill_array64 p gra g sz of
        Inl e \<Rightarrow> Inl e
      | Inr (array, g') \<Rightarrow> Inr (Words64 array, g'))"

fun run :: "sfmt_params \<Rightarrow> gen_rand_array_t \<Rightarrow> sfmt_t \<Rightarrow> call list \<Rightarrow> (drawn \<times> sfmt_t) list \<times> fault option" where
  "run p gra g [] = ([], None)"
| "run p gra g (c # cs) =
     (case do_call p gra g c of
        Inl e \<Rightarrow> ([], Some e)
      | Inr (out, g') \<Rightarrow> (case run p gra g' cs of (tr, e) \<Rightarrow> ((out, g') # tr, e)))"

subsection \<open>Properties named by the specification\<close>

text \<open>
  The first constant/bit pair of the scan order of the modification: constant \<open>i\<close>, bit
  \<open>k\<close> is set, and no bit is set before it (a smaller constant index, or the same
  constant and a lower bit).
\<close>

definition first_parity_bit :: "u32 list \<Rightarrow> nat \<Rightarrow> nat \<Rightarrow> bool" where
  "first_parity_bit par i k \<longleftrightarrow>
     i < 4 \<and> k < 32 \<and> bit (par ! i) k \<and>
     (\<forall>i' \<in> {0..<4}. \<forall>k' \<in> {0..<32}. i' < i \<or> (i' = i \<and> k' < k) \<longrightarrow> \<not> bit (par ! i') k')"

text \<open>A parameter set has a usable parity vector when some parity constant is not zero.\<close>

definition parity_nonzero :: "sfmt_params \<Rightarrow> bool" where
  "parity_nonzero p \<longleftrightarrow> (\<exists>i \<in> {0..<4}. parity p ! i \<noteq> 0)"

text \<open>The 128-bit state word \<open>k\<close> of an instance, as its four 32-bit lanes.\<close>

definition state_word :: "u32 list \<Rightarrow> nat \<Rightarrow> u32 \<times> u32 \<times> u32 \<times> u32" where
  "state_word psfmt32 k =
     (psfmt32 ! (4 * k), psfmt32 ! (4 * k + 1), psfmt32 ! (4 * k + 2), psfmt32 ! (4 * k + 3))"

text \<open>The recurrence of the scalar seeding on the first \<open>n\<close> words of a list.\<close>

definition seed_recurrence :: "u32 list \<Rightarrow> nat \<Rightarrow> bool" where
  "seed_recurrence ws n \<longleftrightarrow>
     (\<forall>i \<in> {1..<n}. ws ! i = 1812433253 * (ws ! (i - 1) XOR drop_bit 30 (ws ! (i - 1))) + of_nat i)"

text \<open>
  Step \<open>j\<close> of the two loops that follow the first mixing step of the array seeding:
  the loop body, adding \<open>init_key[j] + i\<close> while \<open>j\<close> is below the key length and \<open>i\<close>
  afterwards.
\<close>

definition key_phase_step :: "sfmt_params \<Rightarrow> u32 list \<Rightarrow> u32 list \<times> int \<Rightarrow> nat \<Rightarrow> u32 list \<times> int" where
  "key_phase_step p init_key s j =
     func1_step (SFMT_N32 p) (init_mid (SFMT_N32 p)) (init_lag (SFMT_N32 p))
       (if j < length init_key then init_key ! j + word_of_int (snd s) else word_of_int (snd s))
       (fst s) (snd s)"

text \<open>
  The number of iterations of these two loops: \<^verbatim>\<open>j\<close> at the end of the second one
  (\<^verbatim>\<open>j\<close> starts at 0 and each iteration of either loop increments it once).
\<close>

definition key_phase_steps :: "sfmt_params \<Rightarrow> u32 list \<Rightarrow> int option" where
  "key_phase_steps p init_key =
     (case init_by_array_keys p init_key (int (length init_key)) of
        Inl e \<Rightarrow> None
      | Inr (psfmt32, i, j) \<Rightarrow> Some j)"

section \<open>Period certification\<close>

declare inner_loop.simps [simp del] fold_loop.simps [simp del] scan_bits.simps [simp del] modify_loop.simps [simp del]

lemma signed_drop_bit_xor:
  "signed_drop_bit n (a XOR b) = signed_drop_bit n a XOR signed_drop_bit n (b::u32)"
  by (rule bit_word_eqI) (auto simp: bit_signed_drop_bit_iff bit_xor_iff)

lemma inner_loop_unfold:
  "inner_loop st par 0 0 =
     (st ! 0 AND par ! 0) XOR (st ! 1 AND par ! 1) XOR (st ! 2 AND par ! 2) XOR (st ! 3 AND par ! 3)"
  by (simp add: inner_loop.simps [of _ _ 0] inner_loop.simps [of _ _ 1] inner_loop.simps [of _ _ 2]
      inner_loop.simps [of _ _ 3] inner_loop.simps [of _ _ 4] xor.assoc)

lemma fold_loop_unfold:
  "fold_loop 16 x =
     (let a = x XOR signed_drop_bit 16 x; b = a XOR signed_drop_bit 8 a;
          c = b XOR signed_drop_bit 4 b; d = c XOR signed_drop_bit 2 c
      in d XOR signed_drop_bit 1 d)"
  by (simp add: fold_loop.simps [of 16] fold_loop.simps [of 8] fold_loop.simps [of 4]
      fold_loop.simps [of 2] fold_loop.simps [of 1] fold_loop.simps [of 0] drop_bit_eq_div Let_def)

lemma fold_loop_xor: "fold_loop 16 (a XOR b) = fold_loop 16 a XOR fold_loop 16 b"
  by (simp add: fold_loop_unfold Let_def signed_drop_bit_xor xor.assoc xor.left_commute)

lemma upt32: "[0..<32] = [0,1,2,3,4,5,6,7,8,9,10,11,12,13,14,15,16,17,18,19,20,21,22,23,24,25,26,27,28,29,30,31::nat]"
  by code_simp

lemma fold_single_bit_all:
  "list_all (\<lambda>j. fold_loop 16 (push_bit j 1) AND 1 = 1) [0..<32]"
  unfolding fold_loop_unfold Let_def upt32 by simp

lemma fold_single_bit:
  assumes "j < 32" shows "fold_loop 16 (push_bit j 1) AND 1 = 1"
  using fold_single_bit_all assms unfolding list_all_iff by simp


lemma and_one_cases: "(x::u32) AND 1 = 0 \<or> x AND 1 = 1"
  by (cases "even x") (simp_all add: and_one_eq mod_2_eq_odd)

lemma parity_check_cases: "parity_check p st = 0 \<or> parity_check p st = 1"
  unfolding parity_check_def by (rule and_one_cases)

lemma single_bit_and: "2 ^ k AND (q::u32) \<noteq> 0 \<longleftrightarrow> bit q k"
  using bit_iff_and_push_bit_not_eq_0 [of q k] by (simp add: and.commute)

lemma single_bit_and_eq: "bit (q::u32) k \<Longrightarrow> 2 ^ k AND q = 2 ^ k"
  by (rule bit_word_eqI) (auto simp: bit_and_iff bit_exp_iff)

lemma scan_bits_Some:
  "scan_bits par j (2 ^ nat j) = Some w \<Longrightarrow> 0 \<le> j \<Longrightarrow>
     \<exists>k. nat j \<le> k \<and> k < 32 \<and> w = 2 ^ k \<and> bit par k \<and> (\<forall>m. nat j \<le> m \<and> m < k \<longrightarrow> \<not> bit par m)"
proof (induction par j "2 ^ nat j :: u32" arbitrary: w rule: scan_bits.induct)
  case (1 par j)
  from "1.prems" have lt: "j < 32"
    by (simp add: scan_bits.simps [of par j] split: if_splits)
  show ?case
  proof (cases "bit par (nat j)")
    case True
    with "1.prems" lt have "w = 2 ^ nat j"
      by (simp add: scan_bits.simps [of par j] single_bit_and)
    with True lt "1.prems" show ?thesis
      by (intro exI [of _ "nat j"]) auto
  next
    case False
    have nxt: "push_bit 1 (2 ^ nat j :: u32) = 2 ^ nat (j + 1)"
      using "1.prems" by (simp add: nat_add_distrib)
    have nxt': "(2 ^ nat j * 2 :: u32) = 2 ^ nat (j + 1)"
      using "1.prems" by (simp add: nat_add_distrib)
    from False "1.prems" lt have "scan_bits par (j + 1) (2 ^ nat (j + 1)) = Some w"
      by (simp add: scan_bits.simps [of par j] single_bit_and nxt')
    with "1.hyps" [OF lt _ nxt] False lt "1.prems"
    obtain k where k: "nat (j + 1) \<le> k" "k < 32" "w = 2 ^ k" "bit par k"
      "\<forall>m. nat (j + 1) \<le> m \<and> m < k \<longrightarrow> \<not> bit par m"
      by (auto simp: single_bit_and)
    have "\<forall>m. nat j \<le> m \<and> m < k \<longrightarrow> \<not> bit par m"
    proof (intro allI impI)
      fix m assume m: "nat j \<le> m \<and> m < k"
      show "\<not> bit par m"
      proof (cases "m = nat j")
        case True with False show ?thesis by simp
      next
        case False
        with m "1.prems" have "nat (j + 1) \<le> m" by (simp add: nat_add_distrib)
        with k m show ?thesis by blast
      qed
    qed
    with k "1.prems" show ?thesis
      by (intro exI [of _ k]) (auto simp: nat_add_distrib)
  qed
qed

lemma scan_bits_None:
  "scan_bits par j (2 ^ nat j) = None \<Longrightarrow> 0 \<le> j \<Longrightarrow>
     \<forall>m. nat j \<le> m \<and> m < 32 \<longrightarrow> \<not> bit par m"
proof (induction par j "2 ^ nat j :: u32" rule: scan_bits.induct)
  case (1 par j)
  show ?case
  proof (cases "j < 32")
    case False
    then show ?thesis by auto
  next
    case lt: True
    from "1.prems" lt have nb: "\<not> bit par (nat j)"
      by (simp add: scan_bits.simps [of par j] single_bit_and split: if_splits)
    have nxt: "push_bit 1 (2 ^ nat j :: u32) = 2 ^ nat (j + 1)"
      using "1.prems" by (simp add: nat_add_distrib)
    have nxt': "(2 ^ nat j * 2 :: u32) = 2 ^ nat (j + 1)"
      using "1.prems" by (simp add: nat_add_distrib)
    from nb "1.prems" lt have "scan_bits par (j + 1) (2 ^ nat (j + 1)) = None"
      by (simp add: scan_bits.simps [of par j] single_bit_and nxt')
    with "1.hyps" [OF lt _ nxt] nb lt "1.prems"
    have rest: "\<forall>m. nat (j + 1) \<le> m \<and> m < 32 \<longrightarrow> \<not> bit par m"
      by (auto simp: single_bit_and)
    show ?thesis
    proof (intro allI impI)
      fix m assume m: "nat j \<le> m \<and> m < 32"
      show "\<not> bit par m"
      proof (cases "m = nat j")
        case True with nb show ?thesis by simp
      next
        case False
        with m "1.prems" have "nat (j + 1) \<le> m" by (simp add: nat_add_distrib)
        with rest m show ?thesis by blast
      qed
    qed
  qed
qed


lemma first_parity_bit_unique:
  assumes "first_parity_bit par i k" "first_parity_bit par i' k'"
  shows "i = i' \<and> k = k'"
proof -
  from assms have a: "i < 4" "k < 32" "bit (par ! i) k" "i' < 4" "k' < 32" "bit (par ! i') k'"
    and b: "\<And>a b. a < 4 \<Longrightarrow> b < 32 \<Longrightarrow> a < i \<or> (a = i \<and> b < k) \<Longrightarrow> \<not> bit (par ! a) b"
    and c: "\<And>a b. a < 4 \<Longrightarrow> b < 32 \<Longrightarrow> a < i' \<or> (a = i' \<and> b < k') \<Longrightarrow> \<not> bit (par ! a) b"
    by (auto simp: first_parity_bit_def)
  from a b [of i' k'] c [of i k] show ?thesis
    by (metis linorder_neqE_nat)
qed

lemma modify_loop_spec:
  assumes "0 \<le> i" "\<forall>i' < nat i. \<forall>k < 32. \<not> bit (par ! i') k"
  shows "(\<exists>i0 k. first_parity_bit par i0 k \<and> modify_loop st par i = st[i0 := st ! i0 XOR 2 ^ k])
       \<or> ((\<forall>i' < 4. \<forall>k < 32. \<not> bit (par ! i') k) \<and> modify_loop st par i = st)"
  using assms
proof (induction st par i rule: modify_loop.induct)
  case (1 st par i)
  show ?case
  proof (cases "i < 4")
    case False
    with "1.prems" have "\<forall>i' < 4. \<forall>k < 32. \<not> bit (par ! i') k" by auto
    with False show ?thesis by (simp add: modify_loop.simps [of st par i])
  next
    case lt: True
    show ?thesis
    proof (cases "scan_bits (par ! nat i) 0 1")
      case (Some w)
      with scan_bits_Some [of "par ! nat i" 0 w]
      obtain k where k: "k < 32" "w = 2 ^ k" "bit (par ! nat i) k" "\<forall>m < k. \<not> bit (par ! nat i) m"
        by auto
      from k lt "1.prems" have "first_parity_bit par (nat i) k"
        by (auto simp: first_parity_bit_def)
      moreover from Some lt k have "modify_loop st par i = st[nat i := st ! nat i XOR 2 ^ k]"
        by (simp add: modify_loop.simps [of st par i])
      ultimately show ?thesis by blast
    next
      case None
      with scan_bits_None [of "par ! nat i" 0] have nb: "\<forall>m < 32. \<not> bit (par ! nat i) m"
        by auto
      have pre: "\<forall>i' < nat (i + 1). \<forall>k < 32. \<not> bit (par ! i') k"
      proof (intro allI impI)
        fix i' k assume a: "i' < nat (i + 1)" "k < (32::nat)"
        show "\<not> bit (par ! i') k"
        proof (cases "i' = nat i")
          case True with nb a show ?thesis by simp
        next
          case False
          with a "1.prems" have "i' < nat i" by (simp add: nat_add_distrib)
          with "1.prems" a show ?thesis by blast
        qed
      qed
      from None lt have "modify_loop st par i = modify_loop st par (i + 1)"
        by (simp add: modify_loop.simps [of st par i])
      with "1.IH" [OF lt None _ pre] "1.prems" show ?thesis by simp
    qed
  qed
qed

lemma inner_loop_flip:
  assumes "i < 4" "i < length st" "bit (par ! i) k"
  shows "inner_loop (st[i := st ! i XOR 2 ^ k]) par 0 0 = inner_loop st par 0 0 XOR 2 ^ k"
proof -
  have d: "(st ! i XOR 2 ^ k) AND par ! i = (st ! i AND par ! i) XOR 2 ^ k"
    using single_bit_and_eq [OF assms(3)] by (simp add: bit.conj_xor_distrib2)
  from assms(1) have "i = 0 \<or> i = 1 \<or> i = 2 \<or> i = 3" by auto
  then show ?thesis
    using assms(2) d
    by (elim disjE) (simp_all add: inner_loop_unfold xor.assoc xor.left_commute xor.commute)
qed

lemma parity_check_flip:
  assumes "i < 4" "i < length st" "bit (parity p ! i) k" "k < 32"
  shows "parity_check p (st[i := st ! i XOR 2 ^ k]) = parity_check p st XOR 1"
  using fold_single_bit [OF assms(4)]
  by (simp add: parity_check_def inner_loop_flip [OF assms(1-3)] fold_loop_xor bit.conj_xor_distrib2)


lemma fold_logical:
  "fold_loop 16 x AND 1 =
     (let a = x XOR drop_bit 16 x; b = a XOR drop_bit 8 a;
          c = b XOR drop_bit 4 b; d = c XOR drop_bit 2 c
      in (d XOR drop_bit 1 d) AND 1)"
  by (rule bit_word_eqI)
    (simp add: fold_loop_unfold Let_def bit_and_iff bit_1_iff bit_xor_iff
      bit_signed_drop_bit_iff bit_drop_bit_eq)

lemma period_certification_ok:
  "parity_check p (state g) = 1 \<Longrightarrow> period_certification p g = g"
  by (simp add: period_certification_def)

lemma period_certification_cases:
  assumes "parity_check p (state g) \<noteq> 1"
  shows "(\<exists>i k. first_parity_bit (parity p) i k \<and>
            period_certification p g = g\<lparr>state := (state g)[i := state g ! i XOR 2 ^ k]\<rparr>)
       \<or> ((\<forall>i < 4. \<forall>k < 32. \<not> bit (parity p ! i) k) \<and> period_certification p g = g)"
proof -
  have pc: "period_certification p g = g\<lparr>state := modify_loop (state g) (parity p) 0\<rparr>"
    using assms by (simp add: period_certification_def)
  from modify_loop_spec [of 0 "parity p" "state g"]
  have "(\<exists>i0 k. first_parity_bit (parity p) i0 k \<and>
            modify_loop (state g) (parity p) 0 = (state g)[i0 := state g ! i0 XOR 2 ^ k])
       \<or> ((\<forall>i' < 4. \<forall>k < 32. \<not> bit (parity p ! i') k) \<and> modify_loop (state g) (parity p) 0 = state g)"
    by simp
  then show ?thesis
  proof (elim disjE exE conjE)
    fix i0 k
    assume "first_parity_bit (parity p) i0 k"
      "modify_loop (state g) (parity p) 0 = (state g)[i0 := state g ! i0 XOR 2 ^ k]"
    then show ?thesis
      by (intro disjI1 exI [of _ i0] exI [of _ k]) (simp add: pc)
  next
    assume "\<forall>i' < 4. \<forall>k < 32. \<not> bit (parity p ! i') k"
      "modify_loop (state g) (parity p) 0 = state g"
    then show ?thesis
      by (intro disjI2) (simp add: pc)
  qed
qed

lemma period_certification_first:
  assumes "parity_check p (state g) \<noteq> 1" "first_parity_bit (parity p) i k"
  shows "period_certification p g = g\<lparr>state := (state g)[i := state g ! i XOR 2 ^ k]\<rparr>"
proof -
  from period_certification_cases [OF assms(1)]
  consider i' k' where "first_parity_bit (parity p) i' k'"
      "period_certification p g = g\<lparr>state := (state g)[i' := state g ! i' XOR 2 ^ k']\<rparr>"
    | "\<forall>i < 4. \<forall>k < 32. \<not> bit (parity p ! i) k"
    by blast
  then show ?thesis
  proof cases
    case 1
    with first_parity_bit_unique [OF assms(2) 1(1)] show ?thesis by simp
  next
    case 2
    with assms(2) have False unfolding first_parity_bit_def by blast
    then show ?thesis ..
  qed
qed

lemma period_certification_none:
  assumes "parity_check p (state g) \<noteq> 1" "\<not> (\<exists>i k. first_parity_bit (parity p) i k)"
  shows "period_certification p g = g"
  using period_certification_cases [OF assms(1)] assms(2) by blast

lemma parity_check_certified:
  assumes "4 \<le> length (state g)" "parity_nonzero p"
  shows "parity_check p (state (period_certification p g)) = 1"
proof (cases "parity_check p (state g) = 1")
  case True
  then show ?thesis by (simp add: period_certification_ok)
next
  case False
  then have z: "parity_check p (state g) = 0" using parity_check_cases [of p "state g"] by blast
  from assms(2) obtain i where i: "i < 4" "parity p ! i \<noteq> 0"
    by (auto simp: parity_nonzero_def)
  then obtain k where "bit (parity p ! i) k" by (auto simp: bit_eq_iff)
  then have "k < 32 \<and> bit (parity p ! i) k" using bit_imp_le_length [of "parity p ! i" k] by simp
  with i period_certification_cases [OF False]
  obtain i' k' where f: "first_parity_bit (parity p) i' k'"
      "period_certification p g = g\<lparr>state := (state g)[i' := state g ! i' XOR 2 ^ k']\<rparr>"
    by blast
  from f(1) have b: "i' < 4" "k' < 32" "bit (parity p ! i') k'" by (auto simp: first_parity_bit_def)
  with assms(1) have "i' < length (state g)" by simp
  from parity_check_flip [OF b(1) this b(3) b(2)] z f(2) show ?thesis by simp
qed

text \<open>
  Claim C4. For every state, \<open>period_certification\<close> computes \<open>inner\<close> as the XOR over
  \<open>i = 0..3\<close> of \<open>word[i] AND parity[i]\<close>, folds it with the shifts 16, 8, 4, 2, 1 and
  masks it to one bit. When the bit is 1 the state is unchanged. When it is 0, the first
  constant/bit pair of the scan order (constants 0..3, bits from the least significant)
  at which the parity constant has its bit set is the one bit that is flipped, in the
  word of that constant; with no such pair the state is unchanged. So the result is the
  state itself or the state with one bit flipped.
\<close>

theorem period_certification_algorithm:
  "parity_check p (state g) =
     (let inner = (state g ! 0 AND SFMT_PARITY1 p) XOR (state g ! 1 AND SFMT_PARITY2 p)
                  XOR (state g ! 2 AND SFMT_PARITY3 p) XOR (state g ! 3 AND SFMT_PARITY4 p);
          inner = inner XOR signed_drop_bit 16 inner;
          inner = inner XOR signed_drop_bit 8 inner;
          inner = inner XOR signed_drop_bit 4 inner;
          inner = inner XOR signed_drop_bit 2 inner;
          inner = inner XOR signed_drop_bit 1 inner
      in inner AND 1)
   \<and> (parity_check p (state g) = 1 \<longrightarrow> period_certification p g = g)
   \<and> (parity_check p (state g) \<noteq> 1 \<longrightarrow>
        parity_check p (state g) = 0
        \<and> (\<forall>i k. first_parity_bit (parity p) i k \<longrightarrow>
              period_certification p g = g\<lparr>state := (state g)[i := state g ! i XOR push_bit k 1]\<rparr>)
        \<and> ((\<forall>i k. \<not> first_parity_bit (parity p) i k) \<longrightarrow> period_certification p g = g))
   \<and> (period_certification p g = g
        \<or> (\<exists>i \<in> {0..<4}. \<exists>k \<in> {0..<32}.
              period_certification p g = g\<lparr>state := (state g)[i := state g ! i XOR push_bit k 1]\<rparr>))"
proof (intro conjI impI allI)
  show "parity_check p (state g) =
     (let inner = (state g ! 0 AND SFMT_PARITY1 p) XOR (state g ! 1 AND SFMT_PARITY2 p)
                  XOR (state g ! 2 AND SFMT_PARITY3 p) XOR (state g ! 3 AND SFMT_PARITY4 p);
          inner = inner XOR signed_drop_bit 16 inner;
          inner = inner XOR signed_drop_bit 8 inner;
          inner = inner XOR signed_drop_bit 4 inner;
          inner = inner XOR signed_drop_bit 2 inner;
          inner = inner XOR signed_drop_bit 1 inner
      in inner AND 1)"
    by (simp add: parity_check_def inner_loop_unfold fold_loop_unfold parity_def Let_def)
next
  assume "parity_check p (state g) = 1"
  then show "period_certification p g = g" by (rule period_certification_ok)
next
  assume "parity_check p (state g) \<noteq> 1"
  then show "parity_check p (state g) = 0" using parity_check_cases [of p "state g"] by blast
next
  fix i k
  assume "parity_check p (state g) \<noteq> 1" "first_parity_bit (parity p) i k"
  then show "period_certification p g = g\<lparr>state := (state g)[i := state g ! i XOR push_bit k 1]\<rparr>"
    using period_certification_first [of p g i k] by simp
next
  assume "parity_check p (state g) \<noteq> 1" "\<forall>i k. \<not> first_parity_bit (parity p) i k"
  then show "period_certification p g = g"
    using period_certification_none [of p g] by blast
next
  show "period_certification p g = g
        \<or> (\<exists>i \<in> {0..<4}. \<exists>k \<in> {0..<32}.
              period_certification p g = g\<lparr>state := (state g)[i := state g ! i XOR push_bit k 1]\<rparr>)"
  proof (cases "parity_check p (state g) = 1")
    case True
    then show ?thesis by (simp add: period_certification_ok)
  next
    case False
    from period_certification_cases [OF False] show ?thesis
    proof (elim disjE exE conjE)
      fix i k
      assume f: "first_parity_bit (parity p) i k"
        and e: "period_certification p g = g\<lparr>state := (state g)[i := state g ! i XOR 2 ^ k]\<rparr>"
      from f have "i \<in> {0..<4}" "k \<in> {0..<32}" by (auto simp: first_parity_bit_def)
      with e show ?thesis by (intro disjI2 bexI [of _ i] bexI [of _ k]) simp_all
    qed simp
  qed
qed

theorem period_certification_algorithm_witness:
  "period_certification params19937 \<lparr>state = replicate 624 0, idx = 624\<rparr>
     = \<lparr>state = (replicate 624 0)[0 := 1], idx = 624\<rparr>
   \<and> period_certification params19937 \<lparr>state = (replicate 624 0)[0 := 1], idx = 624\<rparr>
     = \<lparr>state = (replicate 624 0)[0 := 1], idx = 624\<rparr>"
proof -
  let ?g = "\<lparr>state = replicate 624 0, idx = 624\<rparr> :: sfmt_t"
  let ?h = "\<lparr>state = (replicate 624 0)[0 := 1], idx = 624\<rparr> :: sfmt_t"
  have f: "first_parity_bit (parity params19937) 0 0"
    by (simp add: first_parity_bit_def parity_def params19937_def)
  have c: "parity_check params19937 (state ?g) \<noteq> 1"
    using period_certification_algorithm [of params19937 ?g] by (simp add: params19937_def)
  have d: "parity_check params19937 (state ?h) = 1"
    using period_certification_algorithm [of params19937 ?h] by (simp add: params19937_def)
  from period_certification_algorithm [of params19937 ?g] c f
  have "period_certification params19937 ?g = ?g\<lparr>state := (state ?g)[0 := state ?g ! 0 XOR push_bit 0 1]\<rparr>"
    by blast
  moreover from period_certification_algorithm [of params19937 ?h] d
  have "period_certification params19937 ?h = ?h" by blast
  ultimately show ?thesis by simp
qed

text \<open>
  Claim C10. Applying \<open>period_certification\<close> twice in succession gives the same state
  as applying it once, for every state and every parameter set.
\<close>

theorem period_certification_idempotent:
  "period_certification p (period_certification p g) = period_certification p g"
proof (cases "parity_check p (state g) = 1")
  case True
  then show ?thesis by (simp add: period_certification_ok)
next
  case False
  then have z: "parity_check p (state g) = 0" using parity_check_cases [of p "state g"] by blast
  from period_certification_cases [OF False]
  consider i k where "first_parity_bit (parity p) i k"
      "period_certification p g = g\<lparr>state := (state g)[i := state g ! i XOR 2 ^ k]\<rparr>"
    | "period_certification p g = g"
    by blast
  then show ?thesis
  proof cases
    case 1
    from 1(1) have b: "i < 4" "k < 32" "bit (parity p ! i) k" by (auto simp: first_parity_bit_def)
    show ?thesis
    proof (cases "i < length (state g)")
      case True
      from parity_check_flip [OF b(1) True b(3) b(2)] z 1(2)
      have "parity_check p (state (period_certification p g)) = 1" by simp
      then show ?thesis by (rule period_certification_ok)
    next
      case False
      with 1(2) have "period_certification p g = g" by (simp add: list_update_beyond not_less)
      then show ?thesis by simp
    qed
  next
    case 2
    then show ?thesis by simp
  qed
qed


theorem period_certification_idempotent_witness:
  "period_certification params19937
     (period_certification params19937 \<lparr>state = replicate 624 0, idx = 624\<rparr>)
   = period_certification params19937 \<lparr>state = replicate 624 0, idx = 624\<rparr>"
  using period_certification_idempotent [of params19937 "\<lparr>state = replicate 624 0, idx = 624\<rparr>"]
  by simp

section \<open>Sizes, signed division, and the comparison\<close>

lemma SFMT_N_pos: "0 < SFMT_N p"
  by (simp add: SFMT_N_def)

lemma SFMT_N32_ge4: "4 \<le> SFMT_N32 p"
  using SFMT_N_pos [of p] by (simp add: SFMT_N32_def)

lemma SFMT_N64_pos: "0 < SFMT_N64 p"
  using SFMT_N_pos [of p] by (simp add: SFMT_N64_def)

lemma smod_eq_mod: "0 \<le> (a::int) \<Longrightarrow> 0 < b \<Longrightarrow> a smod b = a mod b"
  by (simp add: signed_modulo_int_def sgn_if)

lemma sdiv_eq_div: "0 \<le> (a::int) \<Longrightarrow> 0 < b \<Longrightarrow> a sdiv b = a div b"
  by (simp add: signed_divide_int_def sgn_if)


lemma smod_zero_iff_dvd: "0 < b \<Longrightarrow> (a::int) smod b = 0 \<longleftrightarrow> b dvd a"
proof -
  assume b: "0 < b"
  have "\<bar>a\<bar> mod \<bar>b\<bar> = 0 \<longleftrightarrow> b dvd a"
    using b by (simp add: mod_eq_0_iff_dvd)
  then show ?thesis
    by (cases "a = 0") (simp_all add: signed_modulo_int_def sgn_0_0)
qed

declare compare_loop.simps [simp del]

lemma lane_bytes_inj: "lane_bytes a = lane_bytes b \<longleftrightarrow> a = b"
proof
  assume e: "lane_bytes a = lane_bytes b"
  have c: "bit a (s + m) = bit b (s + m)"
    if "(ucast (drop_bit s a) :: u8) = ucast (drop_bit s b)" "m < 8" for s m
  proof -
    from that(1) have "bit (ucast (drop_bit s a) :: u8) m = bit (ucast (drop_bit s b) :: u8) m"
      by simp
    with that(2) show ?thesis by (simp add: bit_ucast_iff bit_drop_bit_eq)
  qed
  from e have b0: "(ucast (drop_bit 0 a) :: u8) = ucast (drop_bit 0 b)"
    and b1: "(ucast (drop_bit 8 a) :: u8) = ucast (drop_bit 8 b)"
    and b2: "(ucast (drop_bit 16 a) :: u8) = ucast (drop_bit 16 b)"
    and b3: "(ucast (drop_bit 24 a) :: u8) = ucast (drop_bit 24 b)"
    by (simp_all add: lane_bytes_def)
  show "a = b"
  proof (rule bit_word_eqI)
    fix n assume "n < LENGTH(32)"
    then consider "n < 8" | "8 \<le> n" "n - 8 < 8" | "16 \<le> n" "n - 16 < 8" | "24 \<le> n" "n - 24 < 8"
      by fastforce
    then show "bit a n = bit b n"
    proof cases
      case 1 with c [OF b0, of n] show ?thesis by simp
    next
      case 2 with c [OF b1, of "n - 8"] show ?thesis by simp
    next
      case 3 with c [OF b2, of "n - 16"] show ?thesis by simp
    next
      case 4 with c [OF b3, of "n - 24"] show ?thesis by simp
    qed
  qed
qed simp

lemma length_lane_bytes: "length (lane_bytes a) = 4"
  by (simp add: lane_bytes_def)

lemma length_w128_si: "length (w128_si st k) = 16"
  by (simp add: w128_si_def length_lane_bytes)

lemma w128_si_eq:
  "w128_si l k = w128_si r k \<longleftrightarrow>
     l ! (4 * k) = r ! (4 * k) \<and> l ! (4 * k + 1) = r ! (4 * k + 1) \<and>
     l ! (4 * k + 2) = r ! (4 * k + 2) \<and> l ! (4 * k + 3) = r ! (4 * k + 3)"
  by (simp add: w128_si_def length_lane_bytes lane_bytes_inj)

lemma mm_movemask_bounds: "0 \<le> mm_movemask_epi8 v \<and> mm_movemask_epi8 v < 2 ^ length v"
  by (induction v) (auto simp: mm_movemask_epi8_def)

lemma mm_movemask_cmpeq:
  "length a = length b \<Longrightarrow>
     mm_movemask_epi8 (mm_cmpeq_epi8 a b) = 2 ^ length a - 1 \<longleftrightarrow> a = b"
proof (induction a b rule: list_induct2)
  case Nil
  then show ?case by (simp add: mm_movemask_epi8_def mm_cmpeq_epi8_def)
next
  case (Cons x xs y ys)
  define m where "m = mm_movemask_epi8 (mm_cmpeq_epi8 xs ys)"
  define t :: int where "t = 2 ^ length xs"
  have len: "length (mm_cmpeq_epi8 xs ys) = length xs"
    using Cons.hyps by (simp add: mm_cmpeq_epi8_def)
  from mm_movemask_bounds [of "mm_cmpeq_epi8 xs ys"] have b: "0 \<le> m" "m < t"
    by (simp_all add: m_def t_def len)
  have step: "mm_movemask_epi8 (mm_cmpeq_epi8 (x # xs) (y # ys)) = (if x = y then 1 else 0) + 2 * m"
    by (simp add: mm_movemask_epi8_def mm_cmpeq_epi8_def m_def)
  from Cons.IH have ih: "m = t - 1 \<longleftrightarrow> xs = ys" by (simp add: m_def t_def)
  have "(if x = y then 1 else 0) + 2 * m = 2 * t - 1 \<longleftrightarrow> x = y \<and> m = t - 1"
    using b by (cases "x = y") auto
  with ih step show ?case by (simp add: t_def)
qed

lemma w128_compare:
  "mm_movemask_epi8 (mm_cmpeq_epi8 (w128_si l k) (w128_si r k)) \<noteq> 0xffff \<longleftrightarrow>
     w128_si l k \<noteq> w128_si r k"
  using mm_movemask_cmpeq [of "w128_si l k" "w128_si r k"] by (simp add: length_w128_si)


lemma w128_si_state_word: "w128_si l k = w128_si r k \<longleftrightarrow> state_word l k = state_word r k"
  by (simp add: w128_si_eq state_word_def)

lemma compare_loop_Some:
  "compare_loop n l r u = Some k \<Longrightarrow>
     u \<le> k \<and> int k < n \<and> state_word l k \<noteq> state_word r k \<and>
     (\<forall>m. u \<le> m \<and> m < k \<longrightarrow> state_word l m = state_word r m)"
proof (induction n l r u rule: compare_loop.induct)
  case (1 n l r u)
  from "1.prems" have lt: "int u < n"
    by (simp add: compare_loop.simps [of n l r u] split: if_splits)
  show ?case
  proof (cases "state_word l u = state_word r u")
    case False
    with "1.prems" lt have "k = u"
      by (simp add: compare_loop.simps [of n l r u] w128_compare w128_si_state_word)
    with False lt show ?thesis by auto
  next
    case True
    with "1.prems" lt have nxt: "compare_loop n l r (u + 1) = Some k"
      by (simp add: compare_loop.simps [of n l r u] w128_compare w128_si_state_word)
    from True have "\<not> mm_movemask_epi8 (mm_cmpeq_epi8 (w128_si l u) (w128_si r u)) \<noteq> 0xffff"
      by (simp add: w128_compare w128_si_state_word)
    from "1.IH" [OF lt this nxt]
    have ih: "u + 1 \<le> k" "int k < n" "state_word l k \<noteq> state_word r k"
      "\<forall>m. u + 1 \<le> m \<and> m < k \<longrightarrow> state_word l m = state_word r m"
      by simp_all
    have "\<forall>m. u \<le> m \<and> m < k \<longrightarrow> state_word l m = state_word r m"
    proof (intro allI impI)
      fix m assume m: "u \<le> m \<and> m < k"
      show "state_word l m = state_word r m"
      proof (cases "m = u")
        case True with \<open>state_word l u = state_word r u\<close> show ?thesis by simp
      next
        case False
        with m have "u + 1 \<le> m" by simp
        with ih(4) m show ?thesis by blast
      qed
    qed
    with ih show ?thesis by simp
  qed
qed

lemma compare_loop_None:
  "compare_loop n l r u = None \<Longrightarrow>
     \<forall>m. u \<le> m \<and> int m < n \<longrightarrow> state_word l m = state_word r m"
proof (induction n l r u rule: compare_loop.induct)
  case (1 n l r u)
  show ?case
  proof (cases "int u < n")
    case False
    then show ?thesis by auto
  next
    case lt: True
    from "1.prems" lt have eq: "state_word l u = state_word r u"
      by (simp add: compare_loop.simps [of n l r u] w128_compare w128_si_state_word split: if_splits)
    with "1.prems" lt have nxt: "compare_loop n l r (u + 1) = None"
      by (simp add: compare_loop.simps [of n l r u] w128_compare w128_si_state_word)
    from eq have "\<not> mm_movemask_epi8 (mm_cmpeq_epi8 (w128_si l u) (w128_si r u)) \<noteq> 0xffff"
      by (simp add: w128_compare w128_si_state_word)
    from "1.IH" [OF lt this nxt]
    have ih: "\<forall>m. u + 1 \<le> m \<and> int m < n \<longrightarrow> state_word l m = state_word r m" .
    show ?thesis
    proof (intro allI impI)
      fix m assume m: "u \<le> m \<and> int m < n"
      show "state_word l m = state_word r m"
      proof (cases "m = u")
        case True with eq show ?thesis by simp
      next
        case False
        with m have "u + 1 \<le> m" by simp
        with ih m show ?thesis by blast
      qed
    qed
  qed
qed

lemma compare_loop_first:
  "compare_loop n l r 0 = Some k \<longleftrightarrow>
     int k < n \<and> state_word l k \<noteq> state_word r k \<and> (\<forall>m < k. state_word l m = state_word r m)"
proof
  assume "compare_loop n l r 0 = Some k"
  from compare_loop_Some [OF this] show
    "int k < n \<and> state_word l k \<noteq> state_word r k \<and> (\<forall>m < k. state_word l m = state_word r m)"
    by simp
next
  assume a: "int k < n \<and> state_word l k \<noteq> state_word r k \<and> (\<forall>m < k. state_word l m = state_word r m)"
  show "compare_loop n l r 0 = Some k"
  proof (cases "compare_loop n l r 0")
    case None
    from compare_loop_None [OF this] a show ?thesis by blast
  next
    case (Some k')
    from compare_loop_Some [OF this]
    have b: "int k' < n" "state_word l k' \<noteq> state_word r k'" "\<forall>m < k'. state_word l m = state_word r m"
      by simp_all
    with a have "k' = k" by (metis linorder_neqE_nat)
    with Some show ?thesis by simp
  qed
qed

lemma compare_loop_None_iff:
  "compare_loop n l r 0 = None \<longleftrightarrow> (\<forall>m. int m < n \<longrightarrow> state_word l m = state_word r m)"
proof
  assume "compare_loop n l r 0 = None"
  from compare_loop_None [OF this] show "\<forall>m. int m < n \<longrightarrow> state_word l m = state_word r m"
    by simp
next
  assume a: "\<forall>m. int m < n \<longrightarrow> state_word l m = state_word r m"
  show "compare_loop n l r 0 = None"
  proof (cases "compare_loop n l r 0")
    case (Some k)
    from compare_loop_Some [OF this] a show ?thesis by blast
  qed simp
qed

lemma op_eq_iff:
  "op_eq p a b \<longleftrightarrow>
     idx a = idx b \<and> (\<forall>m. int m < SFMT_N p \<longrightarrow> state_word (state a) m = state_word (state b) m)"
proof (cases "compare_loop (SFMT_N p) (state a) (state b) 0")
  case None
  with compare_loop_None_iff [of "SFMT_N p" "state a" "state b"] show ?thesis
    by (simp add: op_eq_def)
next
  case (Some k)
  with compare_loop_None_iff [of "SFMT_N p" "state a" "state b"] show ?thesis
    by (simp add: op_eq_def)
qed

lemma state_words_eq:
  assumes "length l = nat (4 * n)" "length r = nat (4 * n)"
    "\<forall>m. int m < n \<longrightarrow> state_word l m = state_word r m"
  shows "l = r"
proof (rule nth_equalityI)
  show "length l = length r" using assms by simp
next
  fix i assume i: "i < length l"
  define m where "m = i div 4"
  have m: "int m < n" using i assms(1) unfolding m_def by linarith
  with assms(3) have e: "state_word l m = state_word r m" by blast
  have "i = 4 * m \<or> i = 4 * m + 1 \<or> i = 4 * m + 2 \<or> i = 4 * m + 3"
    unfolding m_def by presburger
  with e show "l ! i = r ! i" by (auto simp: state_word_def)
qed

lemma op_eq_wf:
  assumes "wf_sfmt p a" "wf_sfmt p b"
  shows "op_eq p a b \<longleftrightarrow> a = b"
proof
  assume "op_eq p a b"
  then have i: "idx a = idx b"
    and w: "\<forall>m. int m < SFMT_N p \<longrightarrow> state_word (state a) m = state_word (state b) m"
    by (simp_all add: op_eq_iff)
  from assms have "length (state a) = nat (4 * SFMT_N p)" "length (state b) = nat (4 * SFMT_N p)"
    by (simp_all add: wf_sfmt_def SFMT_N32_def mult.commute)
  from state_words_eq [OF this w] i show "a = b" by simp
next
  assume "a = b"
  then show "op_eq p a b" by (simp add: op_eq_iff)
qed

lemma op_eq_refl: "op_eq p a a"
  by (simp add: op_eq_iff)

text \<open>
  Claim C8. \<open>A == B\<close> is true exactly when the \<open>idx\<close> fields are equal and every
  128-bit state word of \<open>A\<close> equals the one of \<open>B\<close>; the loop returns false at the first
  state word that differs (\<open>compare_loop\<close> gives \<open>Some k\<close> exactly for the least
  differing \<open>k\<close>, so no later word is compared); \<open>A != B\<close> is the negation. On
  instances whose state arrays have the declared size this is equality of the instances.
\<close>

theorem equality_contract:
  "(op_eq p a b \<longleftrightarrow>
      idx a = idx b \<and> (\<forall>k \<in> {0..<nat (SFMT_N p)}. state_word (state a) k = state_word (state b) k))
   \<and> (compare_loop (SFMT_N p) (state a) (state b) 0 = Some k \<longleftrightarrow>
        k < nat (SFMT_N p) \<and> state_word (state a) k \<noteq> state_word (state b) k
        \<and> (\<forall>k' \<in> {0..<k}. state_word (state a) k' = state_word (state b) k'))
   \<and> (idx a \<noteq> idx b \<longrightarrow> \<not> op_eq p a b)
   \<and> (op_neq p a b \<longleftrightarrow> \<not> op_eq p a b)
   \<and> (wf_sfmt p a \<and> wf_sfmt p b \<longrightarrow> (op_eq p a b \<longleftrightarrow> a = b))"
proof (intro conjI)
  have "(\<forall>m. int m < SFMT_N p \<longrightarrow> state_word (state a) m = state_word (state b) m)
        \<longleftrightarrow> (\<forall>k \<in> {0..<nat (SFMT_N p)}. state_word (state a) k = state_word (state b) k)"
    by (auto simp: nat_less_iff)
  then show "op_eq p a b \<longleftrightarrow>
      idx a = idx b \<and> (\<forall>k \<in> {0..<nat (SFMT_N p)}. state_word (state a) k = state_word (state b) k)"
    by (simp add: op_eq_iff)
next
  have "int k < SFMT_N p \<longleftrightarrow> k < nat (SFMT_N p)" by (auto simp: nat_less_iff)
  moreover have "(\<forall>m < k. state_word (state a) m = state_word (state b) m)
      \<longleftrightarrow> (\<forall>k' \<in> {0..<k}. state_word (state a) k' = state_word (state b) k')"
    by auto
  ultimately show "compare_loop (SFMT_N p) (state a) (state b) 0 = Some k \<longleftrightarrow>
        k < nat (SFMT_N p) \<and> state_word (state a) k \<noteq> state_word (state b) k
        \<and> (\<forall>k' \<in> {0..<k}. state_word (state a) k' = state_word (state b) k')"
    by (simp add: compare_loop_first)
next
  show "idx a \<noteq> idx b \<longrightarrow> \<not> op_eq p a b" by (simp add: op_eq_def)
next
  show "op_neq p a b \<longleftrightarrow> \<not> op_eq p a b" by (simp add: op_neq_def)
next
  show "wf_sfmt p a \<and> wf_sfmt p b \<longrightarrow> (op_eq p a b \<longleftrightarrow> a = b)"
    using op_eq_wf [of p a b] by blast
qed

theorem equality_contract_witness:
  "op_eq params607 \<lparr>state = replicate 20 7, idx = 20\<rparr> \<lparr>state = replicate 20 7, idx = 20\<rparr>
   \<and> \<not> op_eq params607 \<lparr>state = replicate 20 7, idx = 20\<rparr> \<lparr>state = (replicate 20 7)[5 := 6], idx = 20\<rparr>
   \<and> compare_loop (SFMT_N params607) (replicate 20 7) ((replicate 20 7)[5 := 6]) 0 = Some 1
   \<and> op_neq params607 \<lparr>state = replicate 20 7, idx = 20\<rparr> \<lparr>state = replicate 20 7, idx = 19\<rparr>"
proof -
  let ?a = "\<lparr>state = replicate 20 7, idx = 20\<rparr> :: sfmt_t"
  let ?b = "\<lparr>state = (replicate 20 7)[5 := 6], idx = 20\<rparr> :: sfmt_t"
  let ?c = "\<lparr>state = replicate 20 7, idx = 19\<rparr> :: sfmt_t"
  have wf: "wf_sfmt params607 ?a" "wf_sfmt params607 ?b"
    by (simp_all add: wf_sfmt_def SFMT_N32_def SFMT_N_def params607_def)
  have ne: "?a \<noteq> ?b"
  proof
    assume "?a = ?b"
    then have "state ?a ! 5 = state ?b ! 5" by simp
    then show False by simp
  qed
  have n: "nat (SFMT_N params607) = 5" by (simp add: SFMT_N_def params607_def)
  have "op_eq params607 ?a ?a" using equality_contract [of params607 ?a ?a 0] wf by blast
  moreover have "\<not> op_eq params607 ?a ?b" using equality_contract [of params607 ?a ?b 0] wf ne by blast
  moreover have "compare_loop (SFMT_N params607) (state ?a) (state ?b) 0 = Some 1"
  proof -
    have "state_word (state ?a) 1 \<noteq> state_word (state ?b) 1" by (simp add: state_word_def)
    moreover have "\<forall>k' \<in> {0..<1}. state_word (state ?a) k' = state_word (state ?b) k'"
      by (simp add: state_word_def)
    ultimately show ?thesis using equality_contract [of params607 ?a ?b 1] n by simp
  qed
  moreover have "op_neq params607 ?a ?c" using equality_contract [of params607 ?a ?c 0] by simp
  ultimately show ?thesis by simp
qed

text \<open>
  Claim C7. \<open>sfmt_fill_array32\<close> ends in a failed assertion exactly when \<open>idx\<close> is not
  \<open>SFMT_N32\<close>, or the size is not a positive multiple of 4, or the size is below
  \<open>SFMT_N32\<close>; \<open>sfmt_fill_array64\<close> likewise with 2 and \<open>SFMT_N64\<close>. There is no other
  fault, and when the preconditions hold the call returns the words generated and an
  instance with \<open>idx = SFMT_N32\<close>.
\<close>

theorem fill_array_preconditions:
  "(sfmt_fill_array32 p gra g sz = Inl AssertionFailed \<longleftrightarrow>
      \<not> (idx g = SFMT_N32 p \<and> 0 < sz \<and> 4 dvd sz \<and> SFMT_N32 p \<le> sz))
   \<and> (idx g = SFMT_N32 p \<and> 0 < sz \<and> 4 dvd sz \<and> SFMT_N32 p \<le> sz \<longrightarrow>
        sfmt_fill_array32 p gra g sz =
          Inr (fst (gra (state g) (sz div 4)), g\<lparr>state := snd (gra (state g) (sz div 4)), idx := SFMT_N32 p\<rparr>))
   \<and> sfmt_fill_array32 p gra g sz \<noteq> Inl KeyOutOfBounds
   \<and> (sfmt_fill_array64 p gra g sz = Inl AssertionFailed \<longleftrightarrow>
      \<not> (idx g = SFMT_N32 p \<and> 0 < sz \<and> 2 dvd sz \<and> SFMT_N64 p \<le> sz))
   \<and> (idx g = SFMT_N32 p \<and> 0 < sz \<and> 2 dvd sz \<and> SFMT_N64 p \<le> sz \<longrightarrow>
        sfmt_fill_array64 p gra g sz =
          Inr (u64_view (fst (gra (state g) (sz div 2))),
               g\<lparr>state := snd (gra (state g) (sz div 2)), idx := SFMT_N32 p\<rparr>))
   \<and> sfmt_fill_array64 p gra g sz \<noteq> Inl KeyOutOfBounds"
proof -
  have n32: "0 < SFMT_N32 p" using SFMT_N32_ge4 [of p] by simp
  have n64: "0 < SFMT_N64 p" by (rule SFMT_N64_pos)
  have d4: "sz sdiv 4 = sz div 4" if "0 < sz" using that by (simp add: sdiv_eq_div)
  have d2: "sz sdiv 2 = sz div 2" if "0 < sz" using that by (simp add: sdiv_eq_div)
  have a: "sfmt_fill_array32 p gra g sz = Inl AssertionFailed \<longleftrightarrow>
      \<not> (idx g = SFMT_N32 p \<and> 0 < sz \<and> 4 dvd sz \<and> SFMT_N32 p \<le> sz)"
    using n32 by (auto simp: sfmt_fill_array32_def smod_zero_iff_dvd split: prod.splits)
  have b: "idx g = SFMT_N32 p \<and> 0 < sz \<and> 4 dvd sz \<and> SFMT_N32 p \<le> sz \<longrightarrow>
        sfmt_fill_array32 p gra g sz =
          Inr (fst (gra (state g) (sz div 4)), g\<lparr>state := snd (gra (state g) (sz div 4)), idx := SFMT_N32 p\<rparr>)"
    using d4 by (auto simp: sfmt_fill_array32_def smod_zero_iff_dvd split: prod.splits)
  have c: "sfmt_fill_array32 p gra g sz \<noteq> Inl KeyOutOfBounds"
    by (simp add: sfmt_fill_array32_def split: prod.splits)
  have a': "sfmt_fill_array64 p gra g sz = Inl AssertionFailed \<longleftrightarrow>
      \<not> (idx g = SFMT_N32 p \<and> 0 < sz \<and> 2 dvd sz \<and> SFMT_N64 p \<le> sz)"
    using n64 by (auto simp: sfmt_fill_array64_def smod_zero_iff_dvd split: prod.splits)
  have b': "idx g = SFMT_N32 p \<and> 0 < sz \<and> 2 dvd sz \<and> SFMT_N64 p \<le> sz \<longrightarrow>
        sfmt_fill_array64 p gra g sz =
          Inr (u64_view (fst (gra (state g) (sz div 2))),
               g\<lparr>state := snd (gra (state g) (sz div 2)), idx := SFMT_N32 p\<rparr>)"
    using d2 by (auto simp: sfmt_fill_array64_def smod_zero_iff_dvd split: prod.splits)
  have c': "sfmt_fill_array64 p gra g sz \<noteq> Inl KeyOutOfBounds"
    by (simp add: sfmt_fill_array64_def split: prod.splits)
  from a b c a' b' c' show ?thesis by blast
qed


theorem fill_array_preconditions_witness:
  "sfmt_fill_array32 params19937 (\<lambda>st n. (st, st)) \<lparr>state = replicate 624 1, idx = 624\<rparr> 624
     = Inr (replicate 624 1, \<lparr>state = replicate 624 1, idx = 624\<rparr>)
   \<and> sfmt_fill_array32 params19937 (\<lambda>st n. (st, st)) \<lparr>state = replicate 624 1, idx = 624\<rparr> 622
     = Inl AssertionFailed
   \<and> sfmt_fill_array32 params19937 (\<lambda>st n. (st, st)) \<lparr>state = replicate 624 1, idx = 3\<rparr> 624
     = Inl AssertionFailed
   \<and> sfmt_fill_array64 params19937 (\<lambda>st n. (st, st)) \<lparr>state = replicate 624 1, idx = 624\<rparr> 312
     = Inr (u64_view (replicate 624 1), \<lparr>state = replicate 624 1, idx = 624\<rparr>)
   \<and> sfmt_fill_array64 params19937 (\<lambda>st n. (st, st)) \<lparr>state = replicate 624 1, idx = 624\<rparr> 310
     = Inl AssertionFailed"
proof -
  let ?g = "\<lparr>state = replicate 624 1, idx = 624\<rparr> :: sfmt_t"
  let ?h = "\<lparr>state = replicate 624 1, idx = 3\<rparr> :: sfmt_t"
  let ?gra = "(\<lambda>st n. (st, st)) :: gen_rand_array_t"
  have n: "SFMT_N32 params19937 = 624" "SFMT_N64 params19937 = 312"
    by (simp_all add: SFMT_N32_def SFMT_N64_def SFMT_N_def params19937_def)
  have "sfmt_fill_array32 params19937 ?gra ?g 624 = Inr (replicate 624 1, ?g)"
    using fill_array_preconditions [of params19937 ?gra ?g 624] n by simp
  moreover have "sfmt_fill_array32 params19937 ?gra ?g 622 = Inl AssertionFailed"
    using fill_array_preconditions [of params19937 ?gra ?g 622] n by simp
  moreover have "sfmt_fill_array32 params19937 ?gra ?h 624 = Inl AssertionFailed"
    using fill_array_preconditions [of params19937 ?gra ?h 624] n by simp
  moreover have "sfmt_fill_array64 params19937 ?gra ?g 312 = Inr (u64_view (replicate 624 1), ?g)"
    using fill_array_preconditions [of params19937 ?gra ?g 312] n by simp
  moreover have "sfmt_fill_array64 params19937 ?gra ?g 310 = Inl AssertionFailed"
    using fill_array_preconditions [of params19937 ?gra ?g 310] n by simp
  ultimately show ?thesis by simp
qed

section \<open>Scalar seeding\<close>

declare init_loop.simps [simp del]

lemma init_loop_spec:
  assumes "1 \<le> i" "length st = nat n32"
  shows "length (init_loop n32 i st) = length st
       \<and> (\<forall>k < nat i. init_loop n32 i st ! k = st ! k)
       \<and> (\<forall>k. nat i \<le> k \<and> k < nat n32 \<longrightarrow>
            init_loop n32 i st ! k =
              1812433253 * (init_loop n32 i st ! (k - 1) XOR drop_bit 30 (init_loop n32 i st ! (k - 1)))
              + of_nat k)"
  using assms
proof (induction n32 i st rule: init_loop.induct)
  case (1 n32 i st)
  show ?case
  proof (cases "i < n32")
    case False
    then have "nat n32 \<le> nat i" by simp
    with False show ?thesis by (auto simp: init_loop.simps [of n32 i st])
  next
    case True
    define st' where "st' = st[nat i := 1812433253 *
             (st ! nat (i - 1) XOR drop_bit 30 (st ! nat (i - 1))) + word_of_int i]"
    have r: "init_loop n32 i st = init_loop n32 (i + 1) st'"
      using True by (simp add: init_loop.simps [of n32 i st] st'_def)
    have len': "length st' = nat n32" using "1.prems" by (simp add: st'_def)
    have le1: "1 \<le> i + 1" using "1.prems" by simp
    have ih: "length (init_loop n32 (i + 1) st') = length st'"
      "\<forall>k < nat (i + 1). init_loop n32 (i + 1) st' ! k = st' ! k"
      "\<forall>k. nat (i + 1) \<le> k \<and> k < nat n32 \<longrightarrow>
            init_loop n32 (i + 1) st' ! k =
              1812433253 * (init_loop n32 (i + 1) st' ! (k - 1)
                 XOR drop_bit 30 (init_loop n32 (i + 1) st' ! (k - 1))) + of_nat k"
      using "1.IH" [OF True le1] len' unfolding st'_def by simp_all
    have ilt: "nat i < length st" using True "1.prems" by simp
    have a: "length (init_loop n32 i st) = length st"
      using ih(1) len' "1.prems" by (simp add: r)
    have b: "\<forall>k < nat i. init_loop n32 i st ! k = st ! k"
    proof (intro allI impI)
      fix k assume k: "k < nat i"
      then have "k < nat (i + 1)" by simp
      with ih(2) have "init_loop n32 (i + 1) st' ! k = st' ! k" by blast
      with k show "init_loop n32 i st ! k = st ! k" by (simp add: r st'_def)
    qed
    have c: "\<forall>k. nat i \<le> k \<and> k < nat n32 \<longrightarrow>
            init_loop n32 i st ! k =
              1812433253 * (init_loop n32 i st ! (k - 1) XOR drop_bit 30 (init_loop n32 i st ! (k - 1)))
              + of_nat k"
    proof (intro allI impI)
      fix k assume k: "nat i \<le> k \<and> k < nat n32"
      show "init_loop n32 i st ! k =
              1812433253 * (init_loop n32 i st ! (k - 1) XOR drop_bit 30 (init_loop n32 i st ! (k - 1)))
              + of_nat k"
      proof (cases "k = nat i")
        case False
        with k "1.prems" have "nat (i + 1) \<le> k \<and> k < nat n32" by (simp add: nat_add_distrib)
        with ih(3) show ?thesis by (simp add: r)
      next
        case e: True
        have p1: "nat i - Suc 0 = nat (i - 1)" using "1.prems" by (simp add: nat_diff_distrib)
        have "nat i < nat (i + 1)" "nat i - 1 < nat (i + 1)" using "1.prems" by simp_all
        with ih(2) have "init_loop n32 (i + 1) st' ! nat i = st' ! nat i"
          "init_loop n32 (i + 1) st' ! (nat i - 1) = st' ! (nat i - 1)" by blast+
        moreover have "st' ! nat i = 1812433253 *
             (st ! nat (i - 1) XOR drop_bit 30 (st ! nat (i - 1))) + word_of_int i"
          using ilt by (simp add: st'_def)
        moreover have "st' ! (nat i - 1) = st ! nat (i - 1)"
          using "1.prems" by (simp add: st'_def p1)
        moreover have "(word_of_int i :: u32) = of_nat (nat i)" using "1.prems" by simp
        ultimately show ?thesis by (simp add: r e)
      qed
    qed
    from a b c show ?thesis by blast
  qed
qed

lemma seed_words_unique:
  assumes "length xs = n" "length ys = n" "0 < n" "xs ! 0 = ys ! 0"
    "seed_recurrence xs n" "seed_recurrence ys n"
  shows "xs = ys"
proof (rule nth_equalityI)
  show "length xs = length ys" using assms by simp
next
  fix i assume "i < length xs"
  then have "i < n" using assms by simp
  then show "xs ! i = ys ! i"
  proof (induction i)
    case 0
    then show ?case using assms by simp
  next
    case (Suc i)
    then have "xs ! i = ys ! i" by simp
    moreover from Suc.prems assms(5,6) have
      "xs ! Suc i = 1812433253 * (xs ! i XOR drop_bit 30 (xs ! i)) + of_nat (Suc i)"
      "ys ! Suc i = 1812433253 * (ys ! i XOR drop_bit 30 (ys ! i)) + of_nat (Suc i)"
      by (auto simp: seed_recurrence_def)
    ultimately show ?case by simp
  qed
qed

lemma init_gen_rand_words:
  fixes seed :: u32
  assumes "wf_sfmt p g"
  defines "ws \<equiv> init_loop (SFMT_N32 p) 1 ((state g)[0 := seed])"
  shows "length ws = nat (SFMT_N32 p)" "ws ! 0 = seed" "seed_recurrence ws (nat (SFMT_N32 p))"
    "sfmt_init_gen_rand p seed g = period_certification p (g\<lparr>state := ws, idx := SFMT_N32 p\<rparr>)"
proof -
  have len: "length ((state g)[0 := seed]) = nat (SFMT_N32 p)"
    using assms(1) by (simp add: wf_sfmt_def)
  have pos: "0 < length (state g)" using assms(1) SFMT_N32_ge4 [of p] by (simp add: wf_sfmt_def)
  from init_loop_spec [of 1 "(state g)[0 := seed]" "SFMT_N32 p", OF _ len, folded ws_def]
  have s: "length ws = length ((state g)[0 := seed])"
    "\<forall>k < nat 1. ws ! k = (state g)[0 := seed] ! k"
    "\<forall>k. nat 1 \<le> k \<and> k < nat (SFMT_N32 p) \<longrightarrow>
        ws ! k = 1812433253 * (ws ! (k - 1) XOR drop_bit 30 (ws ! (k - 1))) + of_nat k"
    by simp_all
  from s(1) len show "length ws = nat (SFMT_N32 p)" by simp
  from s(2) pos show "ws ! 0 = seed" by simp
  from s(3) show "seed_recurrence ws (nat (SFMT_N32 p))" by (simp add: seed_recurrence_def)
  show "sfmt_init_gen_rand p seed g = period_certification p (g\<lparr>state := ws, idx := SFMT_N32 p\<rparr>)"
    by (simp add: sfmt_init_gen_rand_def ws_def Let_def)
qed

lemma sfmt_t_overwrite: "(g::sfmt_t)\<lparr>state := st, idx := n\<rparr> = \<lparr>state = st, idx = n\<rparr>"
  by (cases g) simp

lemma init_gen_rand_independent:
  assumes "wf_sfmt p g1" "wf_sfmt p g2"
  shows "sfmt_init_gen_rand p seed g1 = sfmt_init_gen_rand p seed g2"
proof -
  have pos: "0 < nat (SFMT_N32 p)" using SFMT_N32_ge4 [of p] by simp
  from seed_words_unique [OF init_gen_rand_words(1) [OF assms(1)] init_gen_rand_words(1) [OF assms(2)] pos
      _ init_gen_rand_words(3) [OF assms(1)] init_gen_rand_words(3) [OF assms(2)], of seed seed]
    init_gen_rand_words(2) [OF assms(1)] init_gen_rand_words(2) [OF assms(2)]
  have "init_loop (SFMT_N32 p) 1 ((state g1)[0 := seed]) = init_loop (SFMT_N32 p) 1 ((state g2)[0 := seed])"
    by simp
  then show ?thesis
    by (simp add: init_gen_rand_words(4) [OF assms(1)] init_gen_rand_words(4) [OF assms(2)]
        sfmt_t_overwrite)
qed

lemma length_modify_loop: "length (modify_loop st par i) = length st"
  by (induction st par i rule: modify_loop.induct)
    (simp add: modify_loop.simps [of _ _ i for i] split: option.splits)

lemma period_certification_idx: "idx (period_certification p g) = idx g"
  by (simp add: period_certification_def Let_def)

lemma period_certification_length: "length (state (period_certification p g)) = length (state g)"
  by (simp add: period_certification_def Let_def length_modify_loop)

lemma init_gen_rand_wf:
  assumes "wf_sfmt p g"
  shows "wf_sfmt p (sfmt_init_gen_rand p seed g)" "idx (sfmt_init_gen_rand p seed g) = SFMT_N32 p"
  using init_gen_rand_words(1) [OF assms, of seed]
  by (simp_all add: init_gen_rand_words(4) [OF assms] wf_sfmt_def period_certification_length
      period_certification_idx)

lemma init_gen_rand_parity:
  assumes "wf_sfmt p g" "parity_nonzero p"
  shows "parity_check p (state (sfmt_init_gen_rand p seed g)) = 1"
proof -
  have "4 \<le> length (state (g\<lparr>state := init_loop (SFMT_N32 p) 1 ((state g)[0 := seed]), idx := SFMT_N32 p\<rparr>))"
    using init_gen_rand_words(1) [OF assms(1), of seed] SFMT_N32_ge4 [of p] by simp
  from parity_check_certified [OF this assms(2)] show ?thesis
    by (simp add: init_gen_rand_words(4) [OF assms(1)])
qed


text \<open>
  Claim C3. For every 32-bit seed, \<open>sfmt_init_gen_rand\<close> on an instance with the state
  array of the declared size sets \<open>word[0] = seed\<close> and
  \<open>word[i] = 1812433253 * (word[i-1] XOR (word[i-1] >> 30)) + i\<close> for \<open>i\<close> from 1 to
  \<open>N32 - 1\<close> in wrapping 32-bit arithmetic, sets \<open>idx = N32\<close>, and then applies the period
  certification.
\<close>

theorem scalar_seeding:
  "wf_sfmt p g \<Longrightarrow>
     \<exists>ws. length ws = nat (SFMT_N32 p) \<and> ws ! 0 = seed
       \<and> (\<forall>i \<in> {1..<nat (SFMT_N32 p)}.
             ws ! i = 1812433253 * (ws ! (i - 1) XOR drop_bit 30 (ws ! (i - 1))) + of_nat i)
       \<and> sfmt_init_gen_rand p seed g = period_certification p (g\<lparr>state := ws, idx := SFMT_N32 p\<rparr>)
       \<and> idx (sfmt_init_gen_rand p seed g) = SFMT_N32 p"
proof -
  assume wf: "wf_sfmt p g"
  let ?ws = "init_loop (SFMT_N32 p) 1 ((state g)[0 := seed])"
  from init_gen_rand_words [OF wf, of seed] init_gen_rand_wf(2) [OF wf, of seed]
  have "length ?ws = nat (SFMT_N32 p) \<and> ?ws ! 0 = seed
       \<and> (\<forall>i \<in> {1..<nat (SFMT_N32 p)}.
             ?ws ! i = 1812433253 * (?ws ! (i - 1) XOR drop_bit 30 (?ws ! (i - 1))) + of_nat i)
       \<and> sfmt_init_gen_rand p seed g = period_certification p (g\<lparr>state := ?ws, idx := SFMT_N32 p\<rparr>)
       \<and> idx (sfmt_init_gen_rand p seed g) = SFMT_N32 p"
    unfolding seed_recurrence_def by simp
  then show ?thesis by (rule exI [of _ ?ws])
qed

theorem scalar_seeding_witness:
  "wf_sfmt params607 \<lparr>state = replicate 20 0, idx = 0\<rparr>
   \<and> (\<exists>ws. length ws = 20 \<and> ws ! 0 = 1234
       \<and> (\<forall>i \<in> {1..<20}.
             ws ! i = 1812433253 * (ws ! (i - 1) XOR drop_bit 30 (ws ! (i - 1))) + of_nat i)
       \<and> sfmt_init_gen_rand params607 1234 \<lparr>state = replicate 20 0, idx = 0\<rparr>
           = period_certification params607 \<lparr>state = ws, idx = 20\<rparr>
       \<and> idx (sfmt_init_gen_rand params607 1234 \<lparr>state = replicate 20 0, idx = 0\<rparr>) = 20)"
proof -
  have n: "SFMT_N32 params607 = 20" by (simp add: SFMT_N32_def SFMT_N_def params607_def)
  have wf: "wf_sfmt params607 \<lparr>state = replicate 20 0, idx = 0\<rparr>" by (simp add: wf_sfmt_def n)
  from scalar_seeding [OF wf, of 1234] wf show ?thesis by (simp add: n)
qed

section \<open>Array seeding\<close>

declare key_loop.simps [simp del] index_loop.simps [simp del] func2_loop.simps [simp del]

lemma func1_step_length: "length (fst (func1_step n mid lag a ps i)) = length ps"
  by (simp add: func1_step_def Let_def)

lemma func1_step_snd: "snd (func1_step n mid lag a ps i) = (i + 1) smod n"
  by (simp add: func1_step_def Let_def)

lemma func2_step_length: "length (fst (func2_step n mid lag s)) = length (fst s)"
  by (simp add: func2_step_def Let_def split: prod.splits)

lemma func2_step_snd: "snd (func2_step n mid lag s) = (snd s + 1) smod n"
  by (simp add: func2_step_def Let_def split: prod.splits)

lemma key_loop_fold:
  assumes "key_length = int (length init_key)" "0 \<le> j" "j \<le> m" "m = min count key_length"
  shows "key_loop n mid lag init_key key_length count j ps i =
           Inr (fst (foldl (\<lambda>s j. func1_step n mid lag (init_key ! j + word_of_int (snd s)) (fst s) (snd s))
                      (ps, i) [nat j..<nat m]),
                snd (foldl (\<lambda>s j. func1_step n mid lag (init_key ! j + word_of_int (snd s)) (fst s) (snd s))
                      (ps, i) [nat j..<nat m]),
                m)"
  using assms
proof (induction n mid lag init_key key_length count j ps i rule: key_loop.induct)
  case (1 n mid lag init_key key_length count j ps i)
  show ?case
  proof (cases "j < count \<and> j < key_length")
    case False
    then have "key_loop n mid lag init_key key_length count j ps i = Inr (ps, i, j)"
      by (auto simp: key_loop.simps [of n mid lag init_key key_length count j ps i])
    moreover from False "1.prems" have "j = m" by auto
    ultimately show ?thesis by simp
  next
    case True
    with "1.prems" have bnd: "0 \<le> j \<and> nat j < length init_key" by auto
    obtain ps' i' where st: "func1_step n mid lag (init_key ! nat j + word_of_int i) ps i = (ps', i')"
      by (cases "func1_step n mid lag (init_key ! nat j + word_of_int i) ps i")
    from True "1.prems" have lt: "j < m" "0 \<le> j + 1" "j + 1 \<le> m" by auto
    have upt: "[nat j..<nat m] = nat j # [nat (j + 1)..<nat m]"
      using lt "1.prems"(2) by (simp add: upt_conv_Cons nat_add_distrib)
    from "1.IH" [OF True bnd st [symmetric] "1.prems"(1) lt(2) lt(3) "1.prems"(4)]
    show ?thesis
      using True bnd st
      by (simp add: key_loop.simps [of n mid lag init_key key_length count j ps i] upt)
  qed
qed

lemma index_loop_fold:
  assumes "0 \<le> j" "j \<le> count"
  shows "index_loop n mid lag count j ps i =
           (fst (foldl (\<lambda>s j. func1_step n mid lag (word_of_int (snd s)) (fst s) (snd s))
                      (ps, i) [nat j..<nat count]),
            snd (foldl (\<lambda>s j. func1_step n mid lag (word_of_int (snd s)) (fst s) (snd s))
                      (ps, i) [nat j..<nat count]),
            count)"
  using assms
proof (induction n mid lag count j ps i rule: index_loop.induct)
  case (1 n mid lag count j ps i)
  show ?case
  proof (cases "j < count")
    case False
    then have "index_loop n mid lag count j ps i = (ps, i, j)"
      by (simp add: index_loop.simps [of n mid lag count j ps i])
    moreover from False "1.prems" have "j = count" by auto
    ultimately show ?thesis by simp
  next
    case True
    obtain ps' i' where st: "func1_step n mid lag (word_of_int i) ps i = (ps', i')"
      by (cases "func1_step n mid lag (word_of_int i) ps i")
    from True "1.prems" have lt: "0 \<le> j + 1" "j + 1 \<le> count" by auto
    have upt: "[nat j..<nat count] = nat j # [nat (j + 1)..<nat count]"
      using True "1.prems"(1) by (simp add: upt_conv_Cons nat_add_distrib)
    from "1.IH" [OF True st [symmetric] lt]
    show ?thesis
      using True st
      by (simp add: index_loop.simps [of n mid lag count j ps i] upt)
  qed
qed

lemma SFMT_N_times4: "SFMT_N p * 4 = SFMT_N32 p"
  by (simp add: SFMT_N32_def)

lemma init_by_array_keys_fold:
  fixes init_key :: "u32 list"
  defines "L \<equiv> int (length init_key)"
  shows "init_by_array_keys p init_key L =
           Inr (fst (foldl (key_phase_step p init_key) (init_mix p L, 1) [0..<nat (max (L + 1) (SFMT_N32 p) - 1)]),
                snd (foldl (key_phase_step p init_key) (init_mix p L, 1) [0..<nat (max (L + 1) (SFMT_N32 p) - 1)]),
                max (L + 1) (SFMT_N32 p) - 1)"
proof -
  let ?n = "SFMT_N32 p"
  let ?mid = "init_mid ?n"
  let ?lag = "init_lag ?n"
  define count where "count = max (L + 1) ?n - 1"
  let ?f1 = "\<lambda>s j. func1_step ?n ?mid ?lag (init_key ! j + word_of_int (snd s)) (fst s) (snd s)"
  let ?f2 = "\<lambda>s (j::nat). func1_step ?n ?mid ?lag (word_of_int (snd s)) (fst s) (snd s)"
  let ?S1 = "foldl ?f1 (init_mix p L, 1) [0..<nat L]"
  have c: "(if L + 1 > ?n then L + 1 else ?n) - 1 = count" by (simp add: count_def max_def)
  have Lc: "L \<le> count" "0 \<le> L" by (simp_all add: count_def L_def)
  have m: "L = min count L" using Lc by simp
  have k: "key_loop ?n ?mid ?lag init_key L count 0 (init_mix p L) 1 = Inr (fst ?S1, snd ?S1, L)"
    using key_loop_fold [of L init_key 0 L count ?n ?mid ?lag "init_mix p L" 1] Lc m
    by (simp add: L_def)
  have i: "index_loop ?n ?mid ?lag count L (fst ?S1) (snd ?S1) =
      (fst (foldl ?f2 ?S1 [nat L..<nat count]), snd (foldl ?f2 ?S1 [nat L..<nat count]), count)"
    using index_loop_fold [of L count ?n ?mid ?lag "fst ?S1" "snd ?S1"] Lc by simp
  have e1: "foldl ?f1 (init_mix p L, 1) [0..<nat L] = foldl (key_phase_step p init_key) (init_mix p L, 1) [0..<nat L]"
    by (rule foldl_cong) (auto simp: key_phase_step_def L_def)
  have e2: "foldl ?f2 s [nat L..<nat count] = foldl (key_phase_step p init_key) s [nat L..<nat count]" for s
    by (rule foldl_cong) (auto simp: key_phase_step_def L_def)
  have app: "[0..<nat count] = [0..<nat L] @ [nat L..<nat count]"
  proof -
    have "[0..<nat L + (nat count - nat L)] = [0..<nat L] @ [nat L..<nat L + (nat count - nat L)]"
      by (rule upt_add_eq_append) simp
    moreover have "nat L + (nat count - nat L) = nat count" using Lc by simp
    ultimately show ?thesis by simp
  qed
  have f: "foldl ?f2 ?S1 [nat L..<nat count] = foldl (key_phase_step p init_key) (init_mix p L, 1) [0..<nat count]"
    by (simp add: e1 e2 app)
  have d: "init_by_array_keys p init_key L =
      (case key_loop ?n ?mid ?lag init_key L count 0 (init_mix p L) 1 of
         Inl e \<Rightarrow> Inl e
       | Inr (ps, i, j) \<Rightarrow> Inr (index_loop ?n ?mid ?lag count j ps i))"
    by (simp only: init_by_array_keys_def Let_def SFMT_N_times4 c)
  show ?thesis
    unfolding d k count_def [symmetric] by (simp only: sum.case prod.case i f)
qed


lemma key_phase_step_snd:
  "0 \<le> snd s \<Longrightarrow> snd (key_phase_step p init_key s j) = (snd s + 1) mod SFMT_N32 p"
  using SFMT_N32_ge4 [of p] by (simp add: key_phase_step_def func1_step_snd smod_eq_mod)

lemma key_phase_step_length: "length (fst (key_phase_step p init_key s j)) = length (fst s)"
  by (simp add: key_phase_step_def func1_step_length)

lemma key_phase_fold_snd:
  "0 \<le> snd s \<Longrightarrow> snd s < SFMT_N32 p \<Longrightarrow>
     snd (foldl (key_phase_step p init_key) s js) = (snd s + int (length js)) mod SFMT_N32 p"
proof (induction js arbitrary: s)
  case Nil
  then show ?case by simp
next
  case (Cons j js)
  let ?s = "key_phase_step p init_key s j"
  have n: "0 < SFMT_N32 p" using SFMT_N32_ge4 [of p] by simp
  have s1: "snd ?s = (snd s + 1) mod SFMT_N32 p" using Cons.prems(1) by (rule key_phase_step_snd)
  then have nn: "0 \<le> snd ?s" "snd ?s < SFMT_N32 p" using n by simp_all
  from Cons.IH [OF nn]
  have "snd (foldl (key_phase_step p init_key) ?s js) = (snd s + 1 + int (length js)) mod SFMT_N32 p"
    by (simp add: s1 mod_add_left_eq)
  then show ?case by (simp add: add.assoc)
qed

lemma key_phase_fold_length:
  "length (fst (foldl (key_phase_step p init_key) s js)) = length (fst s)"
  by (induction js arbitrary: s) (simp_all add: key_phase_step_length)

lemma length_init_mix: "length (init_mix p key_length) = nat (SFMT_N32 p)"
  by (simp add: init_mix_def memset_0x8b_def Let_def SFMT_N_times4)

lemma func2_loop_funpow:
  "j \<le> n \<Longrightarrow> func2_loop n mid lag j s = ((func2_step n mid lag) ^^ nat (n - j)) s"
proof (induction n mid lag j s rule: func2_loop.induct)
  case (1 n mid lag j s)
  show ?case
  proof (cases "j < n")
    case False
    with "1.prems" have "nat (n - j) = 0" by simp
    with False show ?thesis by (simp add: func2_loop.simps [of n mid lag j s])
  next
    case True
    then have "nat (n - j) = Suc (nat (n - (j + 1)))" by simp
    moreover from True have "j + 1 \<le> n" by simp
    ultimately show ?thesis
      using "1.IH" [OF True] True
      by (simp add: func2_loop.simps [of n mid lag j s] funpow_swap1)
  qed
qed

lemma func2_funpow_length:
  "length (fst (((func2_step n mid lag) ^^ k) s)) = length (fst s)"
  by (induction k) (simp_all add: func2_step_length)

lemma init_by_array_result:
  fixes init_key :: "u32 list" and p :: sfmt_params
  defines "L \<equiv> int (length init_key)"
  defines "S \<equiv> foldl (key_phase_step p init_key) (init_mix p L, 1) [0..<nat (max (L + 1) (SFMT_N32 p) - 1)]"
  shows "sfmt_init_by_array p init_key L g =
           Inr (period_certification p
                  \<lparr>state = fst (((func2_step (SFMT_N32 p) (init_mid (SFMT_N32 p)) (init_lag (SFMT_N32 p)))
                                  ^^ nat (SFMT_N32 p)) (fst S, snd S)),
                   idx = SFMT_N32 p\<rparr>)"
proof -
  have k: "init_by_array_keys p init_key L = Inr (fst S, snd S, max (L + 1) (SFMT_N32 p) - 1)"
    unfolding S_def L_def by (rule init_by_array_keys_fold)
  have n: "0 \<le> SFMT_N32 p" using SFMT_N32_ge4 [of p] by simp
  show ?thesis
    unfolding sfmt_init_by_array_def Let_def SFMT_N_times4 k
    by (simp add: func2_loop_funpow [OF n] sfmt_t_overwrite split: prod.splits)
qed

lemma init_by_array_props:
  fixes init_key :: "u32 list"
  assumes "sfmt_init_by_array p init_key (int (length init_key)) g = Inr g'"
  shows "wf_sfmt p g'" "idx g' = SFMT_N32 p"
  using assms
  unfolding init_by_array_result
  by (auto simp: wf_sfmt_def period_certification_length period_certification_idx
      func2_funpow_length key_phase_fold_length length_init_mix)

lemma init_by_array_parity:
  fixes init_key :: "u32 list"
  assumes "sfmt_init_by_array p init_key (int (length init_key)) g = Inr g'" "parity_nonzero p"
  shows "parity_check p (state g') = 1"
proof -
  let ?h = "\<lparr>state = fst (((func2_step (SFMT_N32 p) (init_mid (SFMT_N32 p)) (init_lag (SFMT_N32 p)))
                                  ^^ nat (SFMT_N32 p))
       (fst (foldl (key_phase_step p init_key) (init_mix p (int (length init_key)), 1)
            [0..<nat (max (int (length init_key) + 1) (SFMT_N32 p) - 1)]),
        snd (foldl (key_phase_step p init_key) (init_mix p (int (length init_key)), 1)
            [0..<nat (max (int (length init_key) + 1) (SFMT_N32 p) - 1)]))),
                   idx = SFMT_N32 p\<rparr>"
  from assms(1) have g': "g' = period_certification p ?h"
    unfolding init_by_array_result by simp
  have "4 \<le> length (state ?h)"
    using SFMT_N32_ge4 [of p]
    by (simp add: func2_funpow_length key_phase_fold_length length_init_mix)
  from parity_check_certified [OF this assms(2)] show ?thesis by (simp add: g')
qed

lemma init_by_array_empty_key:
  "sfmt_init_by_array p init_key 0 g = sfmt_init_by_array p [] 0 g"
  by (simp add: sfmt_init_by_array_def init_by_array_keys_def Let_def
      key_loop.simps [of _ _ _ _ 0 _ 0])

lemma init_mid_lag_bounds:
  assumes "128 \<le> SFMT_MEXP p"
  shows "0 < init_mid (SFMT_N32 p)" "0 < init_lag (SFMT_N32 p)"
    "init_mid (SFMT_N32 p) + init_lag (SFMT_N32 p) < SFMT_N32 p"
proof -
  have "1 \<le> SFMT_MEXP p div 128" using assms by (simp add: le_div_geq)
  then have n: "8 \<le> SFMT_N32 p" by (simp add: SFMT_N32_def SFMT_N_def)
  have m: "init_mid (SFMT_N32 p) = (SFMT_N32 p - init_lag (SFMT_N32 p)) div 2"
    using n by (simp add: init_mid_def init_lag_def sdiv_eq_div)
  show "0 < init_lag (SFMT_N32 p)" by (simp add: init_lag_def)
  show "0 < init_mid (SFMT_N32 p)" unfolding m init_lag_def using n by auto
  show "init_mid (SFMT_N32 p) + init_lag (SFMT_N32 p) < SFMT_N32 p"
    unfolding m init_lag_def using n by auto
qed

lemma mod_shift_neq:
  assumes "0 < (d::int)" "d < n"
  shows "(x + d) mod n \<noteq> x mod n"
proof
  assume "(x + d) mod n = x mod n"
  then have "n dvd (x + d) - x" by (simp add: mod_eq_dvd_iff)
  then have "n dvd d" by simp
  with assms show False by (simp add: zdvd_not_zless)
qed

lemma step_positions:
  assumes len: "length (ps :: u32 list) = nat n" and i: "0 \<le> i" "i < n"
    and ml: "0 < mid" "0 < lag" "mid + lag < n"
  shows "nat ((i + mid) mod n) \<noteq> nat ((i + mid + lag) mod n)"
    and "nat ((i + mid) mod n) \<noteq> nat i"
    and "nat ((i + mid + lag) mod n) \<noteq> nat i"
    and "nat ((i + mid) mod n) < length ps"
    and "nat ((i + mid + lag) mod n) < length ps"
    and "nat i < length ps"
    and "(i + mid) smod n = (i + mid) mod n"
    and "(i + mid + lag) smod n = (i + mid + lag) mod n"
    and "(i + n - 1) smod n = (i + n - 1) mod n"
    and "(i + 1) smod n = (i + 1) mod n"
proof -
  have n: "0 < n" using i by simp
  show "(i + mid) smod n = (i + mid) mod n" "(i + mid + lag) smod n = (i + mid + lag) mod n"
    "(i + n - 1) smod n = (i + n - 1) mod n" "(i + 1) smod n = (i + 1) mod n"
    using i ml n by (simp_all add: smod_eq_mod)
  have A: "0 \<le> (i + mid) mod n" "(i + mid) mod n < n" using n by simp_all
  have B: "0 \<le> (i + mid + lag) mod n" "(i + mid + lag) mod n < n" using n by simp_all
  have im: "i mod n = i" using i by simp
  have "(i + mid) mod n \<noteq> i mod n" using mod_shift_neq [of mid n i] ml by simp
  then show "nat ((i + mid) mod n) \<noteq> nat i" using A i by (simp add: im nat_eq_iff)
  have "(i + (mid + lag)) mod n \<noteq> i mod n" using mod_shift_neq [of "mid + lag" n i] ml by simp
  then show "nat ((i + mid + lag) mod n) \<noteq> nat i" using B i by (simp add: im nat_eq_iff add.assoc)
  have "(i + mid + lag) mod n \<noteq> (i + mid) mod n" using mod_shift_neq [of lag n "i + mid"] ml by simp
  then show "nat ((i + mid) mod n) \<noteq> nat ((i + mid + lag) mod n)" using A B by (simp add: nat_eq_iff)
  show "nat ((i + mid) mod n) < length ps" "nat ((i + mid + lag) mod n) < length ps" "nat i < length ps"
    using A B i len by (simp_all add: nat_less_iff)
qed

lemma init_mid_lag_basic:
  "0 \<le> init_mid (SFMT_N32 p)" "0 < init_lag (SFMT_N32 p)"
  "init_mid (SFMT_N32 p) + init_lag (SFMT_N32 p) < SFMT_N32 p"
proof -
  have n: "4 \<le> SFMT_N32 p" by (rule SFMT_N32_ge4)
  have m: "init_mid (SFMT_N32 p) = (SFMT_N32 p - init_lag (SFMT_N32 p)) div 2"
    using n by (simp add: init_mid_def init_lag_def sdiv_eq_div)
  show "0 < init_lag (SFMT_N32 p)" by (simp add: init_lag_def)
  show "0 \<le> init_mid (SFMT_N32 p)" unfolding m init_lag_def using n by auto
  show "init_mid (SFMT_N32 p) + init_lag (SFMT_N32 p) < SFMT_N32 p"
    unfolding m init_lag_def using n by auto
qed

lemma init_mix_eq:
  "init_mix p key_length =
     (replicate (nat (SFMT_N32 p)) 0x8b8b8b8b)
       [nat (init_mid (SFMT_N32 p)) := 0x8b8b8b8b + (0x8b8b8b8b XOR drop_bit 27 0x8b8b8b8b) * 1664525,
        nat (init_mid (SFMT_N32 p) + init_lag (SFMT_N32 p)) :=
          0x8b8b8b8b + ((0x8b8b8b8b XOR drop_bit 27 0x8b8b8b8b) * 1664525 + word_of_int key_length),
        0 := (0x8b8b8b8b XOR drop_bit 27 0x8b8b8b8b) * 1664525 + word_of_int key_length]"
proof -
  let ?n = "SFMT_N32 p"
  note b = init_mid_lag_basic [of p]
  have n: "4 \<le> ?n" by (rule SFMT_N32_ge4)
  have lt: "nat (init_mid ?n) < nat ?n" "nat (?n - 1) < nat ?n" "0 < nat ?n"
    "nat (init_mid ?n + init_lag ?n) < nat ?n"
    using b n by simp_all
  have ne: "nat (init_mid ?n + init_lag ?n) \<noteq> nat (init_mid ?n)" using b by simp
  show ?thesis
    using lt ne
    by (simp add: init_mix_def memset_0x8b_def Let_def SFMT_N_times4 func1_def)
qed

text \<open>
  Claim C5, as amended. For every key of length \<open>L \<ge> 0\<close>, \<open>sfmt_init_by_array\<close> chooses
  the lag from 11, 7, 5, 3 by the thresholds 623, 68, 39 on the state size in 32-bit words
  and computes \<open>mid = (size - lag) / 2\<close>. The first mixing step leaves the fill pattern
  \<open>0x8b8b8b8b\<close> with \<open>r\<close> added to word \<open>mid\<close>, \<open>r + L\<close> added to word \<open>mid + lag\<close> and
  word 0 set to \<open>r + L\<close>, for \<open>r = F1(0x8b8b8b8b)\<close>. After it the two loops run exactly
  \<open>max (L + 1) N32 - 1\<close> steps (the count \<open>max (L + 1) N32\<close> is decremented once before the
  loops), and \<open>i\<close>, which starts at 1, advances by one modulo \<open>N32\<close> at each step. Step
  \<open>j\<close>, at index \<open>i\<close>, computes \<open>r = F1(x)\<close>, \<open>F1(x) = (x XOR (x >> 27)) * 1664525\<close>, for
  \<open>x\<close> the XOR of the words at \<open>i\<close>, \<open>(i + mid) mod N32\<close> and \<open>(i + N32 - 1) mod N32\<close>;
  it adds \<open>r\<close> to the word at \<open>(i + mid) mod N32\<close>, adds \<open>r\<close> plus the injected value to
  the word at \<open>(i + mid + lag) mod N32\<close>, sets the word at \<open>i\<close> to \<open>r\<close> plus the injected
  value and leaves every other word; the injected value is \<open>init_key[j] + i\<close> while
  \<open>j < L\<close> and \<open>i\<close> afterwards (the three positions are distinct for every exponent from
  128 on). The call never reads beyond the key.
\<close>

theorem array_seeding_schedule:
  "init_lag (SFMT_N32 p) =
     (if 623 \<le> SFMT_N32 p then 11 else if 68 \<le> SFMT_N32 p then 7 else if 39 \<le> SFMT_N32 p then 5 else 3)
   \<and> init_lag (SFMT_N32 p) \<in> {11, 7, 5, 3}
   \<and> init_mid (SFMT_N32 p) = (SFMT_N32 p - init_lag (SFMT_N32 p)) div 2
   \<and> init_by_array_keys p init_key (int (length init_key)) =
       Inr (fst (foldl (key_phase_step p init_key) (init_mix p (int (length init_key)), 1)
                   [0..<nat (max (int (length init_key) + 1) (SFMT_N32 p) - 1)]),
            snd (foldl (key_phase_step p init_key) (init_mix p (int (length init_key)), 1)
                   [0..<nat (max (int (length init_key) + 1) (SFMT_N32 p) - 1)]),
            max (int (length init_key) + 1) (SFMT_N32 p) - 1)
   \<and> key_phase_steps p init_key = Some (max (int (length init_key) + 1) (SFMT_N32 p) - 1)
   \<and> (\<forall>k \<in> {0..nat (max (int (length init_key) + 1) (SFMT_N32 p) - 1)}.
         snd (foldl (key_phase_step p init_key) (init_mix p (int (length init_key)), 1) [0..<k])
           = (1 + int k) mod SFMT_N32 p)
   \<and> init_mix p (int (length init_key)) =
       (replicate (nat (SFMT_N32 p)) 0x8b8b8b8b)
         [nat (init_mid (SFMT_N32 p)) := 0x8b8b8b8b + (0x8b8b8b8b XOR drop_bit 27 0x8b8b8b8b) * 1664525,
          nat (init_mid (SFMT_N32 p) + init_lag (SFMT_N32 p)) :=
            0x8b8b8b8b + ((0x8b8b8b8b XOR drop_bit 27 0x8b8b8b8b) * 1664525 + of_nat (length init_key)),
          0 := (0x8b8b8b8b XOR drop_bit 27 0x8b8b8b8b) * 1664525 + of_nat (length init_key)]
   \<and> (\<forall>ps i j. length ps = nat (SFMT_N32 p) \<and> 0 \<le> i \<and> i < SFMT_N32 p \<and> 128 \<le> SFMT_MEXP p \<longrightarrow>
         (let n = SFMT_N32 p; mid = init_mid n; lag = init_lag n;
              a = nat ((i + mid) mod n); b = nat ((i + mid + lag) mod n);
              x = ps ! nat i XOR ps ! a XOR ps ! nat ((i + n - 1) mod n);
              r = (x XOR drop_bit 27 x) * 1664525;
              added = (if j < length init_key then init_key ! j + word_of_int i else word_of_int i);
              ps' = fst (key_phase_step p init_key (ps, i) j)
          in ps' ! a = ps ! a + r
             \<and> ps' ! b = ps ! b + (r + added)
             \<and> ps' ! nat i = r + added
             \<and> (\<forall>k \<in> {0..<nat n}. k \<noteq> a \<and> k \<noteq> b \<and> k \<noteq> nat i \<longrightarrow> ps' ! k = ps ! k)
             \<and> snd (key_phase_step p init_key (ps, i) j) = (i + 1) mod n
             \<and> a \<noteq> b \<and> a \<noteq> nat i \<and> b \<noteq> nat i))"
proof (intro conjI ballI)
  show "init_lag (SFMT_N32 p) =
     (if 623 \<le> SFMT_N32 p then 11 else if 68 \<le> SFMT_N32 p then 7 else if 39 \<le> SFMT_N32 p then 5 else 3)"
    by (simp add: init_lag_def)
  show "init_lag (SFMT_N32 p) \<in> {11, 7, 5, 3}" by (simp add: init_lag_def)
  have "0 \<le> SFMT_N32 p - init_lag (SFMT_N32 p)"
    using SFMT_N32_ge4 [of p] by (simp add: init_lag_def)
  then show "init_mid (SFMT_N32 p) = (SFMT_N32 p - init_lag (SFMT_N32 p)) div 2"
    by (simp add: init_mid_def sdiv_eq_div)
  show k: "init_by_array_keys p init_key (int (length init_key)) =
       Inr (fst (foldl (key_phase_step p init_key) (init_mix p (int (length init_key)), 1)
                   [0..<nat (max (int (length init_key) + 1) (SFMT_N32 p) - 1)]),
            snd (foldl (key_phase_step p init_key) (init_mix p (int (length init_key)), 1)
                   [0..<nat (max (int (length init_key) + 1) (SFMT_N32 p) - 1)]),
            max (int (length init_key) + 1) (SFMT_N32 p) - 1)"
    by (rule init_by_array_keys_fold)
  show "key_phase_steps p init_key = Some (max (int (length init_key) + 1) (SFMT_N32 p) - 1)"
    by (simp add: key_phase_steps_def k)
  show "init_mix p (int (length init_key)) =
       (replicate (nat (SFMT_N32 p)) 0x8b8b8b8b)
         [nat (init_mid (SFMT_N32 p)) := 0x8b8b8b8b + (0x8b8b8b8b XOR drop_bit 27 0x8b8b8b8b) * 1664525,
          nat (init_mid (SFMT_N32 p) + init_lag (SFMT_N32 p)) :=
            0x8b8b8b8b + ((0x8b8b8b8b XOR drop_bit 27 0x8b8b8b8b) * 1664525 + of_nat (length init_key)),
          0 := (0x8b8b8b8b XOR drop_bit 27 0x8b8b8b8b) * 1664525 + of_nat (length init_key)]"
    using init_mix_eq [of p "int (length init_key)"] by simp
  show "\<forall>ps i j. length ps = nat (SFMT_N32 p) \<and> 0 \<le> i \<and> i < SFMT_N32 p \<and> 128 \<le> SFMT_MEXP p \<longrightarrow>
         (let n = SFMT_N32 p; mid = init_mid n; lag = init_lag n;
              a = nat ((i + mid) mod n); b = nat ((i + mid + lag) mod n);
              x = ps ! nat i XOR ps ! a XOR ps ! nat ((i + n - 1) mod n);
              r = (x XOR drop_bit 27 x) * 1664525;
              added = (if j < length init_key then init_key ! j + word_of_int i else word_of_int i);
              ps' = fst (key_phase_step p init_key (ps, i) j)
          in ps' ! a = ps ! a + r
             \<and> ps' ! b = ps ! b + (r + added)
             \<and> ps' ! nat i = r + added
             \<and> (\<forall>k \<in> {0..<nat n}. k \<noteq> a \<and> k \<noteq> b \<and> k \<noteq> nat i \<longrightarrow> ps' ! k = ps ! k)
             \<and> snd (key_phase_step p init_key (ps, i) j) = (i + 1) mod n
             \<and> a \<noteq> b \<and> a \<noteq> nat i \<and> b \<noteq> nat i)"
  proof (intro allI impI)
    fix ps :: "u32 list" and i :: int and j :: nat
    assume h: "length ps = nat (SFMT_N32 p) \<and> 0 \<le> i \<and> i < SFMT_N32 p \<and> 128 \<le> SFMT_MEXP p"
    then have len: "length ps = nat (SFMT_N32 p)" and i: "0 \<le> i" "i < SFMT_N32 p"
      and m: "128 \<le> SFMT_MEXP p"
      by simp_all
    note bnd = init_mid_lag_bounds [OF m]
    note pos = step_positions [OF len i(1) i(2) bnd(1) bnd(2) bnd(3)]
    define a where "a = nat ((i + init_mid (SFMT_N32 p)) mod SFMT_N32 p)"
    define b where "b = nat ((i + init_mid (SFMT_N32 p) + init_lag (SFMT_N32 p)) mod SFMT_N32 p)"
    define z where "z = nat ((i + SFMT_N32 p - 1) mod SFMT_N32 p)"
    define r where "r = ((ps ! nat i XOR ps ! a XOR ps ! z) XOR drop_bit 27 (ps ! nat i XOR ps ! a XOR ps ! z)) * 1664525"
    define ad where "ad = (if j < length init_key then init_key ! j + word_of_int i else word_of_int i)"
    have d: "a \<noteq> b" "a \<noteq> nat i" "b \<noteq> nat i" "a < length ps" "b < length ps" "nat i < length ps"
      using pos(1-6) by (simp_all add: a_def b_def)
    have step: "key_phase_step p init_key (ps, i) j =
        (ps[a := ps ! a + r, b := ps ! b + (r + ad), nat i := r + ad], (i + 1) mod SFMT_N32 p)"
      unfolding key_phase_step_def func1_step_def func1_def Let_def fst_conv snd_conv pos(7-10)
      unfolding a_def [symmetric] b_def [symmetric] z_def [symmetric] ad_def [symmetric]
      using d by (simp add: r_def)
    have c1: "fst (key_phase_step p init_key (ps, i) j) ! a = ps ! a + r"
      using d by (simp add: step)
    have c2: "fst (key_phase_step p init_key (ps, i) j) ! b = ps ! b + (r + ad)"
      using d by (simp add: step)
    have c3: "fst (key_phase_step p init_key (ps, i) j) ! nat i = r + ad"
      using d by (simp add: step)
    have c4: "\<forall>k \<in> {0..<nat (SFMT_N32 p)}. k \<noteq> a \<and> k \<noteq> b \<and> k \<noteq> nat i \<longrightarrow>
        fst (key_phase_step p init_key (ps, i) j) ! k = ps ! k"
      by (simp add: step)
    have c5: "snd (key_phase_step p init_key (ps, i) j) = (i + 1) mod SFMT_N32 p"
      by (simp add: step)
    show
      "(let n = SFMT_N32 p; mid = init_mid n; lag = init_lag n;
              a = nat ((i + mid) mod n); b = nat ((i + mid + lag) mod n);
              x = ps ! nat i XOR ps ! a XOR ps ! nat ((i + n - 1) mod n);
              r = (x XOR drop_bit 27 x) * 1664525;
              added = (if j < length init_key then init_key ! j + word_of_int i else word_of_int i);
              ps' = fst (key_phase_step p init_key (ps, i) j)
          in ps' ! a = ps ! a + r
             \<and> ps' ! b = ps ! b + (r + added)
             \<and> ps' ! nat i = r + added
             \<and> (\<forall>k \<in> {0..<nat n}. k \<noteq> a \<and> k \<noteq> b \<and> k \<noteq> nat i \<longrightarrow> ps' ! k = ps ! k)
             \<and> snd (key_phase_step p init_key (ps, i) j) = (i + 1) mod n
             \<and> a \<noteq> b \<and> a \<noteq> nat i \<and> b \<noteq> nat i)"
      unfolding Let_def
      unfolding a_def [symmetric] b_def [symmetric] z_def [symmetric]
      unfolding r_def [symmetric] ad_def [symmetric]
      using c1 c2 c3 c4 c5 d(1-3) by blast
  qed
next
  fix k
  have "(1::int) < SFMT_N32 p" using SFMT_N32_ge4 [of p] by simp
  then show "snd (foldl (key_phase_step p init_key) (init_mix p (int (length init_key)), 1) [0..<k])
           = (1 + int k) mod SFMT_N32 p"
    using key_phase_fold_snd [of "(init_mix p (int (length init_key)), 1)" p init_key "[0..<k]"]
    by simp
qed

theorem array_seeding_schedule_witness:
  "key_phase_steps params19937 [0x123, 0x234, 0x345, 0x456] = Some 623
   \<and> key_phase_steps params19937 (replicate 700 5) = Some 700
   \<and> init_lag (SFMT_N32 params19937) = 11
   \<and> init_mid (SFMT_N32 params19937) = 306
   \<and> snd (foldl (key_phase_step params19937 [0x123, 0x234, 0x345, 0x456])
            (init_mix params19937 4, 1) [0..<623]) = 0
   \<and> fst (key_phase_step params607 [0x123, 0x234] ([2177911353, 773403274, 3526980413, 4144467295, 3872926484, 69910572,
       3858474422, 4161816133, 3523325821, 227910986, 842322818, 2655187404,
       580238607, 1427599421, 3911545716, 3180532246, 255075244, 1230256811,
       1739494, 4274386465], 5) 1) ! 13 = 1281679924
   \<and> fst (key_phase_step params607 [0x123, 0x234] ([2177911353, 773403274, 3526980413, 4144467295, 3872926484, 69910572,
       3858474422, 4161816133, 3523325821, 227910986, 842322818, 2655187404,
       580238607, 1427599421, 3911545716, 3180532246, 255075244, 1230256811,
       1739494, 4274386465], 5) 1) ! 16 = 109156316
   \<and> fst (key_phase_step params607 [0x123, 0x234] ([2177911353, 773403274, 3526980413, 4144467295, 3872926484, 69910572,
       3858474422, 4161816133, 3523325821, 227910986, 842322818, 2655187404,
       580238607, 1427599421, 3911545716, 3180532246, 255075244, 1230256811,
       1739494, 4274386465], 5) 1) ! 5 = 4149048368
   \<and> fst (key_phase_step params607 [0x123, 0x234] ([2177911353, 773403274, 3526980413, 4144467295, 3872926484, 69910572,
       3858474422, 4161816133, 3523325821, 227910986, 842322818, 2655187404,
       580238607, 1427599421, 3911545716, 3180532246, 255075244, 1230256811,
       1739494, 4274386465], 5) 2) ! 13 = 1281679924
   \<and> fst (key_phase_step params607 [0x123, 0x234] ([2177911353, 773403274, 3526980413, 4144467295, 3872926484, 69910572,
       3858474422, 4161816133, 3523325821, 227910986, 842322818, 2655187404,
       580238607, 1427599421, 3911545716, 3180532246, 255075244, 1230256811,
       1739494, 4274386465], 5) 2) ! 16 = 109155752
   \<and> fst (key_phase_step params607 [0x123, 0x234] ([2177911353, 773403274, 3526980413, 4144467295, 3872926484, 69910572,
       3858474422, 4161816133, 3523325821, 227910986, 842322818, 2655187404,
       580238607, 1427599421, 3911545716, 3180532246, 255075244, 1230256811,
       1739494, 4274386465], 5) 2) ! 5 = 4149047804
   \<and> fst (key_phase_step params607 [0x123, 0x234] ([2177911353, 773403274, 3526980413, 4144467295, 3872926484, 69910572,
       3858474422, 4161816133, 3523325821, 227910986, 842322818, 2655187404,
       580238607, 1427599421, 3911545716, 3180532246, 255075244, 1230256811,
       1739494, 4274386465], 5) 2) ! 6 = 3858474422
   \<and> snd (key_phase_step params607 [0x123, 0x234] ([2177911353, 773403274, 3526980413, 4144467295, 3872926484, 69910572,
       3858474422, 4161816133, 3523325821, 227910986, 842322818, 2655187404,
       580238607, 1427599421, 3911545716, 3180532246, 255075244, 1230256811,
       1739494, 4274386465], 5) 2) = 6"
proof -
  let ?ps = "[2177911353, 773403274, 3526980413, 4144467295, 3872926484, 69910572,
       3858474422, 4161816133, 3523325821, 227910986, 842322818, 2655187404,
       580238607, 1427599421, 3911545716, 3180532246, 255075244, 1230256811,
       1739494, 4274386465] :: u32 list"
  have n: "SFMT_N32 params19937 = 624" by (simp add: SFMT_N32_def SFMT_N_def params19937_def)
  have n6: "SFMT_N32 params607 = 20" "init_mid 20 = 8" "init_lag 20 = 3"
    by (simp_all add: SFMT_N32_def SFMT_N_def params607_def init_mid_def init_lag_def sdiv_eq_div)
  have m: "128 \<le> SFMT_MEXP params607" by (simp add: params607_def)
  have "key_phase_steps params19937 [0x123, 0x234, 0x345, 0x456] = Some 623"
    using array_seeding_schedule [of params19937 "[0x123, 0x234, 0x345, 0x456]"] by (simp add: n)
  moreover have "key_phase_steps params19937 (replicate 700 5) = Some 700"
    using array_seeding_schedule [of params19937 "replicate 700 5"] by (simp add: n)
  moreover have "init_lag (SFMT_N32 params19937) = 11 \<and> init_mid (SFMT_N32 params19937) = 306"
    using array_seeding_schedule [of params19937 "[]"] by (simp add: n)
  moreover have "snd (foldl (key_phase_step params19937 [0x123, 0x234, 0x345, 0x456])
            (init_mix params19937 4, 1) [0..<623]) = 0"
  proof -
    have "(623::nat) \<in> {0..nat (max (int (length [0x123, 0x234, 0x345, 0x456 :: u32]) + 1) (SFMT_N32 params19937) - 1)}"
      by (simp add: n)
    with array_seeding_schedule [of params19937 "[0x123, 0x234, 0x345, 0x456]"]
    have "snd (foldl (key_phase_step params19937 [0x123, 0x234, 0x345, 0x456])
            (init_mix params19937 (int (length [0x123, 0x234, 0x345, 0x456 :: u32])), 1) [0..<623])
           = (1 + int 623) mod SFMT_N32 params19937"
      by blast
    then show ?thesis by (simp add: n)
  qed
  moreover have "fst (key_phase_step params607 [0x123, 0x234] (?ps, 5) 1) ! 13 = 1281679924
   \<and> fst (key_phase_step params607 [0x123, 0x234] (?ps, 5) 1) ! 16 = 109156316
   \<and> fst (key_phase_step params607 [0x123, 0x234] (?ps, 5) 1) ! 5 = 4149048368"
  proof -
    from array_seeding_schedule [of params607 "[0x123, 0x234]"]
    have "length ?ps = nat (SFMT_N32 params607) \<and> (0::int) \<le> 5 \<and> 5 < SFMT_N32 params607
            \<and> 128 \<le> SFMT_MEXP params607 \<longrightarrow>
         (let n = SFMT_N32 params607; mid = init_mid n; lag = init_lag n;
              a = nat ((5 + mid) mod n); b = nat ((5 + mid + lag) mod n);
              x = ?ps ! nat 5 XOR ?ps ! a XOR ?ps ! nat ((5 + n - 1) mod n);
              r = (x XOR drop_bit 27 x) * 1664525;
              added = (if 1 < length [0x123, 0x234 :: u32] then [0x123, 0x234] ! 1 + word_of_int 5 else word_of_int 5);
              ps' = fst (key_phase_step params607 [0x123, 0x234] (?ps, 5) 1)
          in ps' ! a = ?ps ! a + r
             \<and> ps' ! b = ?ps ! b + (r + added)
             \<and> ps' ! nat 5 = r + added
             \<and> (\<forall>k \<in> {0..<nat n}. k \<noteq> a \<and> k \<noteq> b \<and> k \<noteq> nat 5 \<longrightarrow> ps' ! k = ?ps ! k)
             \<and> snd (key_phase_step params607 [0x123, 0x234] (?ps, 5) 1) = (5 + 1) mod n
             \<and> a \<noteq> b \<and> a \<noteq> nat 5 \<and> b \<noteq> nat 5)"
      by blast
    with m show ?thesis unfolding Let_def n6 by simp
  qed
  moreover have "fst (key_phase_step params607 [0x123, 0x234] (?ps, 5) 2) ! 13 = 1281679924
   \<and> fst (key_phase_step params607 [0x123, 0x234] (?ps, 5) 2) ! 16 = 109155752
   \<and> fst (key_phase_step params607 [0x123, 0x234] (?ps, 5) 2) ! 5 = 4149047804
   \<and> fst (key_phase_step params607 [0x123, 0x234] (?ps, 5) 2) ! 6 = 3858474422
   \<and> snd (key_phase_step params607 [0x123, 0x234] (?ps, 5) 2) = 6"
  proof -
    from array_seeding_schedule [of params607 "[0x123, 0x234]"]
    have "length ?ps = nat (SFMT_N32 params607) \<and> (0::int) \<le> 5 \<and> 5 < SFMT_N32 params607
            \<and> 128 \<le> SFMT_MEXP params607 \<longrightarrow>
         (let n = SFMT_N32 params607; mid = init_mid n; lag = init_lag n;
              a = nat ((5 + mid) mod n); b = nat ((5 + mid + lag) mod n);
              x = ?ps ! nat 5 XOR ?ps ! a XOR ?ps ! nat ((5 + n - 1) mod n);
              r = (x XOR drop_bit 27 x) * 1664525;
              added = (if 2 < length [0x123, 0x234 :: u32] then [0x123, 0x234] ! 2 + word_of_int 5 else word_of_int 5);
              ps' = fst (key_phase_step params607 [0x123, 0x234] (?ps, 5) 2)
          in ps' ! a = ?ps ! a + r
             \<and> ps' ! b = ?ps ! b + (r + added)
             \<and> ps' ! nat 5 = r + added
             \<and> (\<forall>k \<in> {0..<nat n}. k \<noteq> a \<and> k \<noteq> b \<and> k \<noteq> nat 5 \<longrightarrow> ps' ! k = ?ps ! k)
             \<and> snd (key_phase_step params607 [0x123, 0x234] (?ps, 5) 2) = (5 + 1) mod n
             \<and> a \<noteq> b \<and> a \<noteq> nat 5 \<and> b \<noteq> nat 5)"
      by blast
    with m show ?thesis unfolding Let_def n6 by simp
  qed
  ultimately show ?thesis by simp
qed

text \<open>
  The claim as first stated has \<open>max (L + 1) N32\<close> steps after the first mixing step.
  With the empty key and the exponent 19937 the loops run 623 steps, not 624.
\<close>

theorem array_seeding_schedule_counterexample:
  "key_phase_steps params19937 [] = Some 623
   \<and> max (int (length ([] :: u32 list)) + 1) (SFMT_N32 params19937) = 624
   \<and> key_phase_steps params19937 [] \<noteq> Some (max (int (length ([] :: u32 list)) + 1) (SFMT_N32 params19937))"
proof -
  have n: "SFMT_N32 params19937 = 624" by (simp add: SFMT_N32_def SFMT_N_def params19937_def)
  have "key_phase_steps params19937 [] = Some 623"
    using init_by_array_keys_fold [of params19937 "[]"] by (simp add: key_phase_steps_def n)
  then show ?thesis by (simp add: n)
qed

lemma init_by_array_keys_607:
  "init_by_array_keys params607 [] 0 = Inr ([2177911353, 773403274, 3526980413, 4144467295, 3872926484, 69910572,
       3858474422, 4161816133, 3523325821, 227910986, 842322818, 2655187404,
       580238607, 1427599421, 3911545716, 3180532246, 255075244, 1230256811,
       1739494, 4274386465], 0, 19)"
  by code_simp

text \<open>
  Claim C6, as amended. For every key, after its first two loops \<open>sfmt_init_by_array\<close>
  runs the third loop body exactly \<open>N32\<close> times, from the state and the index \<open>i\<close> the
  second loop left, and then certifies the period. Each step applies
  \<open>F2(x) = (x XOR (x >> 27)) * 1566083941\<close> to the wrapping sum of the words at \<open>i\<close>,
  \<open>(i + mid) mod N32\<close> and \<open>(i + N32 - 1) mod N32\<close>, XORs the result \<open>r\<close> into the word
  at \<open>(i + mid) mod N32\<close> and \<open>r - i\<close> into the word at \<open>(i + mid + lag) mod N32\<close>,
  overwrites the word at \<open>i\<close> with \<open>r - i\<close>, leaves every other word, and advances \<open>i\<close> by
  one modulo \<open>N32\<close> (the three positions are distinct for every exponent from 128 on).
\<close>

theorem array_seeding_second_phase:
  "(let n = SFMT_N32 p; mid = init_mid n; lag = init_lag n in
     (\<exists>ps i j. init_by_array_keys p init_key (int (length init_key)) = Inr (ps, i, j))
     \<and> (\<forall>ps i j. init_by_array_keys p init_key (int (length init_key)) = Inr (ps, i, j) \<longrightarrow>
           sfmt_init_by_array p init_key (int (length init_key)) g =
             Inr (period_certification p
                    \<lparr>state = fst (((func2_step n mid lag) ^^ nat n) (ps, i)), idx = n\<rparr>))
     \<and> (\<forall>ps i. length ps = nat n \<and> 0 \<le> i \<and> i < n \<and> 128 \<le> SFMT_MEXP p \<longrightarrow>
           (let a = nat ((i + mid) mod n); b = nat ((i + mid + lag) mod n);
                x = ps ! nat i + ps ! a + ps ! nat ((i + n - 1) mod n);
                r = (x XOR drop_bit 27 x) * 1566083941;
                ps' = fst (func2_step n mid lag (ps, i))
            in ps' ! a = ps ! a XOR r
               \<and> ps' ! b = ps ! b XOR (r - word_of_int i)
               \<and> ps' ! nat i = r - word_of_int i
               \<and> (\<forall>k \<in> {0..<nat n}. k \<noteq> a \<and> k \<noteq> b \<and> k \<noteq> nat i \<longrightarrow> ps' ! k = ps ! k)
               \<and> snd (func2_step n mid lag (ps, i)) = (i + 1) mod n
               \<and> a \<noteq> b \<and> a \<noteq> nat i \<and> b \<noteq> nat i)))"
proof -
  let ?n = "SFMT_N32 p"
  let ?mid = "init_mid ?n"
  let ?lag = "init_lag ?n"
  have k: "\<exists>ps i j. init_by_array_keys p init_key (int (length init_key)) = Inr (ps, i, j)"
    using init_by_array_keys_fold [of p init_key] by blast
  have r: "\<forall>ps i j. init_by_array_keys p init_key (int (length init_key)) = Inr (ps, i, j) \<longrightarrow>
           sfmt_init_by_array p init_key (int (length init_key)) g =
             Inr (period_certification p
                    \<lparr>state = fst (((func2_step ?n ?mid ?lag) ^^ nat ?n) (ps, i)), idx = ?n\<rparr>)"
    using init_by_array_result [of p init_key g] init_by_array_keys_fold [of p init_key] by simp
  have e: "\<forall>ps i. length ps = nat ?n \<and> 0 \<le> i \<and> i < ?n \<and> 128 \<le> SFMT_MEXP p \<longrightarrow>
           (let a = nat ((i + ?mid) mod ?n); b = nat ((i + ?mid + ?lag) mod ?n);
                x = ps ! nat i + ps ! a + ps ! nat ((i + ?n - 1) mod ?n);
                r = (x XOR drop_bit 27 x) * 1566083941;
                ps' = fst (func2_step ?n ?mid ?lag (ps, i))
            in ps' ! a = ps ! a XOR r
               \<and> ps' ! b = ps ! b XOR (r - word_of_int i)
               \<and> ps' ! nat i = r - word_of_int i
               \<and> (\<forall>k \<in> {0..<nat ?n}. k \<noteq> a \<and> k \<noteq> b \<and> k \<noteq> nat i \<longrightarrow> ps' ! k = ps ! k)
               \<and> snd (func2_step ?n ?mid ?lag (ps, i)) = (i + 1) mod ?n
               \<and> a \<noteq> b \<and> a \<noteq> nat i \<and> b \<noteq> nat i)"
  proof (intro allI impI)
    fix ps :: "u32 list" and i :: int
    assume h: "length ps = nat ?n \<and> 0 \<le> i \<and> i < ?n \<and> 128 \<le> SFMT_MEXP p"
    then have len: "length ps = nat ?n" and i: "0 \<le> i" "i < ?n" and m: "128 \<le> SFMT_MEXP p"
      by simp_all
    note bnd = init_mid_lag_bounds [OF m]
    note pos = step_positions [OF len i(1) i(2) bnd(1) bnd(2) bnd(3)]
    define a where "a = nat ((i + ?mid) mod ?n)"
    define b where "b = nat ((i + ?mid + ?lag) mod ?n)"
    define z where "z = nat ((i + ?n - 1) mod ?n)"
    define r where "r = ((ps ! nat i + ps ! a + ps ! z) XOR drop_bit 27 (ps ! nat i + ps ! a + ps ! z)) * 1566083941"
    have d: "a \<noteq> b" "a \<noteq> nat i" "b \<noteq> nat i" "a < length ps" "b < length ps" "nat i < length ps"
      using pos(1-6) by (simp_all add: a_def b_def)
    have step: "func2_step ?n ?mid ?lag (ps, i) =
        (ps[a := ps ! a XOR r, b := ps ! b XOR (r - word_of_int i), nat i := r - word_of_int i],
         (i + 1) mod ?n)"
      unfolding func2_step_def func2_def Let_def prod.case pos(7-10)
      unfolding a_def [symmetric] b_def [symmetric] z_def [symmetric]
      using d by (simp add: r_def)
    have c1: "fst (func2_step ?n ?mid ?lag (ps, i)) ! a = ps ! a XOR r"
      using d by (simp add: step)
    have c2: "fst (func2_step ?n ?mid ?lag (ps, i)) ! b = ps ! b XOR (r - word_of_int i)"
      using d by (simp add: step)
    have c3: "fst (func2_step ?n ?mid ?lag (ps, i)) ! nat i = r - word_of_int i"
      using d by (simp add: step)
    have c4: "\<forall>k \<in> {0..<nat ?n}. k \<noteq> a \<and> k \<noteq> b \<and> k \<noteq> nat i \<longrightarrow>
        fst (func2_step ?n ?mid ?lag (ps, i)) ! k = ps ! k"
      by (simp add: step)
    have c5: "snd (func2_step ?n ?mid ?lag (ps, i)) = (i + 1) mod ?n"
      by (simp add: step)
    show
      "(let a = nat ((i + ?mid) mod ?n); b = nat ((i + ?mid + ?lag) mod ?n);
                x = ps ! nat i + ps ! a + ps ! nat ((i + ?n - 1) mod ?n);
                r = (x XOR drop_bit 27 x) * 1566083941;
                ps' = fst (func2_step ?n ?mid ?lag (ps, i))
            in ps' ! a = ps ! a XOR r
               \<and> ps' ! b = ps ! b XOR (r - word_of_int i)
               \<and> ps' ! nat i = r - word_of_int i
               \<and> (\<forall>k \<in> {0..<nat ?n}. k \<noteq> a \<and> k \<noteq> b \<and> k \<noteq> nat i \<longrightarrow> ps' ! k = ps ! k)
               \<and> snd (func2_step ?n ?mid ?lag (ps, i)) = (i + 1) mod ?n
               \<and> a \<noteq> b \<and> a \<noteq> nat i \<and> b \<noteq> nat i)"
      unfolding Let_def
      unfolding a_def [symmetric] b_def [symmetric] z_def [symmetric]
      unfolding r_def [symmetric]
      using c1 c2 c3 c4 c5 d(1-3) by blast
  qed
  from k r e show ?thesis unfolding Let_def by blast
qed

theorem array_seeding_second_phase_witness:
  "sfmt_init_by_array params607 [] 0 \<lparr>state = [], idx = 0\<rparr> =
     Inr (period_certification params607
            \<lparr>state = fst (((func2_step 20 8 3) ^^ 20) ([2177911353, 773403274, 3526980413, 4144467295, 3872926484, 69910572,
       3858474422, 4161816133, 3523325821, 227910986, 842322818, 2655187404,
       580238607, 1427599421, 3911545716, 3180532246, 255075244, 1230256811,
       1739494, 4274386465], 0)), idx = 20\<rparr>)
   \<and> fst (func2_step 20 8 3 ([2177911353, 773403274, 3526980413, 4144467295, 3872926484, 69910572,
       3858474422, 4161816133, 3523325821, 227910986, 842322818, 2655187404,
       580238607, 1427599421, 3911545716, 3180532246, 255075244, 1230256811,
       1739494, 4274386465], 0)) ! 8 = 2559564
   \<and> fst (func2_step 20 8 3 ([2177911353, 773403274, 3526980413, 4144467295, 3872926484, 69910572,
       3858474422, 4161816133, 3523325821, 227910986, 842322818, 2655187404,
       580238607, 1427599421, 3911545716, 3180532246, 255075244, 1230256811,
       1739494, 4274386465], 0)) ! 11 = 1281642749
   \<and> fst (func2_step 20 8 3 ([2177911353, 773403274, 3526980413, 4144467295, 3872926484, 69910572,
       3858474422, 4161816133, 3523325821, 227910986, 842322818, 2655187404,
       580238607, 1427599421, 3911545716, 3180532246, 255075244, 1230256811,
       1739494, 4274386465], 0)) ! 0 = 3525746993
   \<and> fst (func2_step 20 8 3 ([2177911353, 773403274, 3526980413, 4144467295, 3872926484, 69910572,
       3858474422, 4161816133, 3523325821, 227910986, 842322818, 2655187404,
       580238607, 1427599421, 3911545716, 3180532246, 255075244, 1230256811,
       1739494, 4274386465], 0)) ! 1 = 773403274
   \<and> snd (func2_step 20 8 3 ([2177911353, 773403274, 3526980413, 4144467295, 3872926484, 69910572,
       3858474422, 4161816133, 3523325821, 227910986, 842322818, 2655187404,
       580238607, 1427599421, 3911545716, 3180532246, 255075244, 1230256811,
       1739494, 4274386465], 0)) = 1"
proof -
  let ?ps = "[2177911353, 773403274, 3526980413, 4144467295, 3872926484, 69910572,
       3858474422, 4161816133, 3523325821, 227910986, 842322818, 2655187404,
       580238607, 1427599421, 3911545716, 3180532246, 255075244, 1230256811,
       1739494, 4274386465] :: u32 list"
  have n: "SFMT_N32 params607 = 20" "init_mid 20 = 8" "init_lag 20 = 3"
    by (simp_all add: SFMT_N32_def SFMT_N_def params607_def init_mid_def init_lag_def sdiv_eq_div)
  have m: "128 \<le> SFMT_MEXP params607" by (simp add: params607_def)
  have len: "length ?ps = nat 20" by simp
  from array_seeding_second_phase [of params607 "[]" "\<lparr>state = [], idx = 0\<rparr>"] init_by_array_keys_607
  have a: "sfmt_init_by_array params607 [] 0 \<lparr>state = [], idx = 0\<rparr> =
     Inr (period_certification params607
            \<lparr>state = fst (((func2_step 20 8 3) ^^ 20) (?ps, 0)), idx = 20\<rparr>)"
    unfolding Let_def n by simp
  from array_seeding_second_phase [of params607 "[]" "\<lparr>state = [], idx = 0\<rparr>"]
  have "length ?ps = nat 20 \<and> (0::int) \<le> 0 \<and> (0::int) < 20 \<and> 128 \<le> SFMT_MEXP params607 \<longrightarrow>
           (let a = nat ((0 + 8) mod 20); b = nat ((0 + 8 + 3) mod 20);
                x = ?ps ! nat 0 + ?ps ! a + ?ps ! nat ((0 + 20 - 1) mod 20);
                r = (x XOR drop_bit 27 x) * 1566083941;
                ps' = fst (func2_step 20 8 3 (?ps, 0))
            in ps' ! a = ?ps ! a XOR r
               \<and> ps' ! b = ?ps ! b XOR (r - word_of_int 0)
               \<and> ps' ! nat 0 = r - word_of_int 0
               \<and> (\<forall>k \<in> {0..<nat 20}. k \<noteq> a \<and> k \<noteq> b \<and> k \<noteq> nat 0 \<longrightarrow> ps' ! k = ?ps ! k)
               \<and> snd (func2_step 20 8 3 (?ps, 0)) = (0 + 1) mod 20
               \<and> a \<noteq> b \<and> a \<noteq> nat 0 \<and> b \<noteq> nat 0)"
    unfolding Let_def n by blast
  with m len have b: "fst (func2_step 20 8 3 (?ps, 0)) ! 8 = 2559564
   \<and> fst (func2_step 20 8 3 (?ps, 0)) ! 11 = 1281642749
   \<and> fst (func2_step 20 8 3 (?ps, 0)) ! 0 = 3525746993
   \<and> fst (func2_step 20 8 3 (?ps, 0)) ! 1 = 773403274
   \<and> snd (func2_step 20 8 3 (?ps, 0)) = 1"
    unfolding Let_def by simp
  from a b show ?thesis by blast
qed

text \<open>
  The claim as first stated has every result of the pass XOR-combined into the state, none
  overwriting. With the exponent 607 and the empty key, the first step of the third loop
  (at \<open>i = 0\<close>) stores \<open>r\<close> in word 0, whatever word 0 held, which is not word 0 XOR \<open>r\<close>.
\<close>

theorem array_seeding_second_phase_counterexample:
  "init_by_array_keys params607 [] 0 = Inr ([2177911353, 773403274, 3526980413, 4144467295, 3872926484, 69910572,
       3858474422, 4161816133, 3523325821, 227910986, 842322818, 2655187404,
       580238607, 1427599421, 3911545716, 3180532246, 255075244, 1230256811,
       1739494, 4274386465], 0, 19)
   \<and> fst (func2_step (SFMT_N32 params607) (init_mid (SFMT_N32 params607)) (init_lag (SFMT_N32 params607))
            ([2177911353, 773403274, 3526980413, 4144467295, 3872926484, 69910572,
       3858474422, 4161816133, 3523325821, 227910986, 842322818, 2655187404,
       580238607, 1427599421, 3911545716, 3180532246, 255075244, 1230256811,
       1739494, 4274386465], 0)) ! 0
       = func2 ([2177911353, 773403274, 3526980413, 4144467295, 3872926484, 69910572,
       3858474422, 4161816133, 3523325821, 227910986, 842322818, 2655187404,
       580238607, 1427599421, 3911545716, 3180532246, 255075244, 1230256811,
       1739494, 4274386465] ! 0 + [2177911353, 773403274, 3526980413, 4144467295, 3872926484, 69910572,
       3858474422, 4161816133, 3523325821, 227910986, 842322818, 2655187404,
       580238607, 1427599421, 3911545716, 3180532246, 255075244, 1230256811,
       1739494, 4274386465] ! 8 + [2177911353, 773403274, 3526980413, 4144467295, 3872926484, 69910572,
       3858474422, 4161816133, 3523325821, 227910986, 842322818, 2655187404,
       580238607, 1427599421, 3911545716, 3180532246, 255075244, 1230256811,
       1739494, 4274386465] ! 19)
   \<and> fst (func2_step (SFMT_N32 params607) (init_mid (SFMT_N32 params607)) (init_lag (SFMT_N32 params607))
            ([2177911353, 773403274, 3526980413, 4144467295, 3872926484, 69910572,
       3858474422, 4161816133, 3523325821, 227910986, 842322818, 2655187404,
       580238607, 1427599421, 3911545716, 3180532246, 255075244, 1230256811,
       1739494, 4274386465], 0)) ! 0
       \<noteq> [2177911353, 773403274, 3526980413, 4144467295, 3872926484, 69910572,
       3858474422, 4161816133, 3523325821, 227910986, 842322818, 2655187404,
       580238607, 1427599421, 3911545716, 3180532246, 255075244, 1230256811,
       1739494, 4274386465] ! 0 XOR func2 ([2177911353, 773403274, 3526980413, 4144467295, 3872926484, 69910572,
       3858474422, 4161816133, 3523325821, 227910986, 842322818, 2655187404,
       580238607, 1427599421, 3911545716, 3180532246, 255075244, 1230256811,
       1739494, 4274386465] ! 0 + [2177911353, 773403274, 3526980413, 4144467295, 3872926484, 69910572,
       3858474422, 4161816133, 3523325821, 227910986, 842322818, 2655187404,
       580238607, 1427599421, 3911545716, 3180532246, 255075244, 1230256811,
       1739494, 4274386465] ! 8 + [2177911353, 773403274, 3526980413, 4144467295, 3872926484, 69910572,
       3858474422, 4161816133, 3523325821, 227910986, 842322818, 2655187404,
       580238607, 1427599421, 3911545716, 3180532246, 255075244, 1230256811,
       1739494, 4274386465] ! 19)"
proof -
  have "fst (func2_step (SFMT_N32 params607) (init_mid (SFMT_N32 params607)) (init_lag (SFMT_N32 params607))
            ([2177911353, 773403274, 3526980413, 4144467295, 3872926484, 69910572,
       3858474422, 4161816133, 3523325821, 227910986, 842322818, 2655187404,
       580238607, 1427599421, 3911545716, 3180532246, 255075244, 1230256811,
       1739494, 4274386465], 0)) ! 0
       = func2 ([2177911353, 773403274, 3526980413, 4144467295, 3872926484, 69910572,
       3858474422, 4161816133, 3523325821, 227910986, 842322818, 2655187404,
       580238607, 1427599421, 3911545716, 3180532246, 255075244, 1230256811,
       1739494, 4274386465] ! 0 + [2177911353, 773403274, 3526980413, 4144467295, 3872926484, 69910572,
       3858474422, 4161816133, 3523325821, 227910986, 842322818, 2655187404,
       580238607, 1427599421, 3911545716, 3180532246, 255075244, 1230256811,
       1739494, 4274386465] ! 8 + [2177911353, 773403274, 3526980413, 4144467295, 3872926484, 69910572,
       3858474422, 4161816133, 3523325821, 227910986, 842322818, 2655187404,
       580238607, 1427599421, 3911545716, 3180532246, 255075244, 1230256811,
       1739494, 4274386465] ! 19)"
    by code_simp
  moreover have "func2 ([2177911353, 773403274, 3526980413, 4144467295, 3872926484, 69910572,
       3858474422, 4161816133, 3523325821, 227910986, 842322818, 2655187404,
       580238607, 1427599421, 3911545716, 3180532246, 255075244, 1230256811,
       1739494, 4274386465] ! 0 + [2177911353, 773403274, 3526980413, 4144467295, 3872926484, 69910572,
       3858474422, 4161816133, 3523325821, 227910986, 842322818, 2655187404,
       580238607, 1427599421, 3911545716, 3180532246, 255075244, 1230256811,
       1739494, 4274386465] ! 8 + [2177911353, 773403274, 3526980413, 4144467295, 3872926484, 69910572,
       3858474422, 4161816133, 3523325821, 227910986, 842322818, 2655187404,
       580238607, 1427599421, 3911545716, 3180532246, 255075244, 1230256811,
       1739494, 4274386465] ! 19)
       \<noteq> [2177911353, 773403274, 3526980413, 4144467295, 3872926484, 69910572,
       3858474422, 4161816133, 3523325821, 227910986, 842322818, 2655187404,
       580238607, 1427599421, 3911545716, 3180532246, 255075244, 1230256811,
       1739494, 4274386465] ! 0 XOR func2 ([2177911353, 773403274, 3526980413, 4144467295, 3872926484, 69910572,
       3858474422, 4161816133, 3523325821, 227910986, 842322818, 2655187404,
       580238607, 1427599421, 3911545716, 3180532246, 255075244, 1230256811,
       1739494, 4274386465] ! 0 + [2177911353, 773403274, 3526980413, 4144467295, 3872926484, 69910572,
       3858474422, 4161816133, 3523325821, 227910986, 842322818, 2655187404,
       580238607, 1427599421, 3911545716, 3180532246, 255075244, 1230256811,
       1739494, 4274386465] ! 8 + [2177911353, 773403274, 3526980413, 4144467295, 3872926484, 69910572,
       3858474422, 4161816133, 3523325821, 227910986, 842322818, 2655187404,
       580238607, 1427599421, 3911545716, 3180532246, 255075244, 1230256811,
       1739494, 4274386465] ! 19)"
    by code_simp
  ultimately show ?thesis using init_by_array_keys_607 by simp
qed

section \<open>The seeded state\<close>

lemma parity_nonzero_19937: "parity_nonzero params19937"
  unfolding parity_nonzero_def by (rule bexI [of _ 0]) (simp_all add: parity_def params19937_def)

lemma parity_nonzero_607: "parity_nonzero params607"
  unfolding parity_nonzero_def by (rule bexI [of _ 0]) (simp_all add: parity_def params607_def)

lemma init_by_array_returns:
  fixes init_key :: "u32 list"
  shows "\<exists>g'. sfmt_init_by_array p init_key (int (length init_key)) g = Inr g'"
  unfolding init_by_array_result by blast

text \<open>
  Claim C2. With a parity vector that is not all zero, after either seeding operation the
  parity fold of the state (the XOR over \<open>i = 0..3\<close> of state word \<open>i\<close> AND parity
  constant \<open>i\<close>, folded to one bit) is 1: after \<open>sfmt_init_gen_rand\<close> with any seed, on
  an instance with the state array of the declared size, and after
  \<open>sfmt_init_by_array\<close> with any key, which always returns.
\<close>

theorem period_invariant:
  "parity_nonzero p \<Longrightarrow>
     (wf_sfmt p g \<longrightarrow> parity_check p (state (sfmt_init_gen_rand p seed g)) = 1)
     \<and> (\<exists>g'. sfmt_init_by_array p init_key (int (length init_key)) g = Inr g'
              \<and> parity_check p (state g') = 1)"
proof -
  assume nz: "parity_nonzero p"
  have "wf_sfmt p g \<longrightarrow> parity_check p (state (sfmt_init_gen_rand p seed g)) = 1"
    using init_gen_rand_parity [OF _ nz] by blast
  moreover have "\<exists>g'. sfmt_init_by_array p init_key (int (length init_key)) g = Inr g'
              \<and> parity_check p (state g') = 1"
    using init_by_array_returns [of p init_key g] init_by_array_parity [OF _ nz] by blast
  ultimately show ?thesis by blast
qed

theorem period_invariant_witness:
  "parity_nonzero params19937
   \<and> wf_sfmt params19937 \<lparr>state = replicate 624 0, idx = 0\<rparr>
   \<and> parity_check params19937 (state (sfmt_init_gen_rand params19937 1234 \<lparr>state = replicate 624 0, idx = 0\<rparr>)) = 1
   \<and> (\<exists>g'. sfmt_init_by_array params19937 [0x123, 0x234, 0x345, 0x456] 4 \<lparr>state = replicate 624 0, idx = 0\<rparr> = Inr g'
            \<and> parity_check params19937 (state g') = 1)"
proof -
  have wf: "wf_sfmt params19937 \<lparr>state = replicate 624 0, idx = 0\<rparr>"
    by (simp add: wf_sfmt_def SFMT_N32_def SFMT_N_def params19937_def)
  from period_invariant [OF parity_nonzero_19937, of "\<lparr>state = replicate 624 0, idx = 0\<rparr>" 1234
      "[0x123, 0x234, 0x345, 0x456]"] wf parity_nonzero_19937
  show ?thesis by simp
qed

text \<open>
  Claim C9. With key length 0, \<open>sfmt_init_by_array\<close> returns for every key argument, the
  empty list included, so it reads no element of the key (a read beyond the end of the
  list is a fault, and the result does not depend on the list); its first loop ends at
  once, at \<open>j = 0\<close>. With a parity vector that is not all zero the state it returns has
  parity fold 1, and it has \<open>idx = N32\<close> and a state array of the declared size.
\<close>

theorem empty_key_seeding:
  "parity_nonzero p \<Longrightarrow>
     (\<exists>g'. sfmt_init_by_array p [] 0 g = Inr g'
            \<and> parity_check p (state g') = 1 \<and> idx g' = SFMT_N32 p \<and> wf_sfmt p g')
     \<and> sfmt_init_by_array p init_key 0 g = sfmt_init_by_array p [] 0 g
     \<and> key_loop (SFMT_N32 p) (init_mid (SFMT_N32 p)) (init_lag (SFMT_N32 p)) init_key 0 count 0 ps 1
         = Inr (ps, 1, 0)"
proof -
  assume nz: "parity_nonzero p"
  from init_by_array_returns [of p "[]" g] obtain g' where g': "sfmt_init_by_array p [] 0 g = Inr g'"
    by auto
  then have e: "sfmt_init_by_array p [] (int (length ([] :: u32 list))) g = Inr g'" by simp
  from init_by_array_parity [OF e nz] init_by_array_props [OF e] g'
  have "\<exists>g'. sfmt_init_by_array p [] 0 g = Inr g'
            \<and> parity_check p (state g') = 1 \<and> idx g' = SFMT_N32 p \<and> wf_sfmt p g'"
    by blast
  moreover have "sfmt_init_by_array p init_key 0 g = sfmt_init_by_array p [] 0 g"
    by (rule init_by_array_empty_key)
  moreover have "key_loop (SFMT_N32 p) (init_mid (SFMT_N32 p)) (init_lag (SFMT_N32 p)) init_key 0 count 0 ps 1
         = Inr (ps, 1, 0)"
    by (simp add: key_loop.simps [of _ _ _ _ 0 _ 0])
  ultimately show ?thesis by blast
qed

theorem empty_key_seeding_witness:
  "parity_nonzero params607
   \<and> (\<exists>g'. sfmt_init_by_array params607 [] 0 \<lparr>state = [], idx = 0\<rparr> = Inr g'
            \<and> parity_check params607 (state g') = 1 \<and> idx g' = 20 \<and> wf_sfmt params607 g')
   \<and> sfmt_init_by_array params607 [7, 8, 9] 0 \<lparr>state = [], idx = 0\<rparr>
       = sfmt_init_by_array params607 [] 0 \<lparr>state = [], idx = 0\<rparr>"
proof -
  have n: "SFMT_N32 params607 = 20" by (simp add: SFMT_N32_def SFMT_N_def params607_def)
  from empty_key_seeding [OF parity_nonzero_607, of "\<lparr>state = [], idx = 0\<rparr>" "[7, 8, 9]"]
    parity_nonzero_607
  show ?thesis by (simp add: n)
qed

section \<open>Runs of call sequences\<close>

lemma init_by_array_independent:
  "sfmt_init_by_array p init_key key_length g1 = sfmt_init_by_array p init_key key_length g2"
  by (simp add: sfmt_init_by_array_def)

lemma run_same:
  "list_all2 (\<lambda>a b. fst a = fst b \<and> op_eq p (snd a) (snd b)) tr tr"
  by (simp add: list_all2_same op_eq_refl)

lemma run_seeded:
  assumes "do_call p gra g1 c = do_call p gra g2 c"
  shows "run p gra g1 (c # cs) = run p gra g2 (c # cs)"
  using assms by simp

text \<open>
  Claim C1. Two instances with state arrays of the declared size and otherwise arbitrary
  content, seeded with the same 32-bit seed and driven through the same sequence of calls
  (seedings and bulk fills, with the same arguments), give the same run: the same output
  words at each call, the same fault if one occurs, and instances that compare equal
  under \<open>operator==\<close> after each call. The same holds when the first call is the array
  seeding with the same key, whatever the two instances held.
\<close>

theorem determinism:
  "wf_sfmt p g1 \<Longrightarrow> wf_sfmt p g2 \<Longrightarrow>
     run p gra g1 (Init_gen_rand S # C) = run p gra g2 (Init_gen_rand S # C)
     \<and> map fst (fst (run p gra g1 (Init_gen_rand S # C))) = map fst (fst (run p gra g2 (Init_gen_rand S # C)))
     \<and> list_all2 (\<lambda>a b. op_eq p (snd a) (snd b))
          (fst (run p gra g1 (Init_gen_rand S # C))) (fst (run p gra g2 (Init_gen_rand S # C)))
     \<and> snd (run p gra g1 (Init_gen_rand S # C)) = snd (run p gra g2 (Init_gen_rand S # C))
     \<and> run p gra h1 (Init_by_array K # C) = run p gra h2 (Init_by_array K # C)
     \<and> list_all2 (\<lambda>a b. fst a = fst b \<and> op_eq p (snd a) (snd b))
          (fst (run p gra h1 (Init_by_array K # C))) (fst (run p gra h2 (Init_by_array K # C)))"
proof -
  assume wf: "wf_sfmt p g1" "wf_sfmt p g2"
  have "do_call p gra g1 (Init_gen_rand S) = do_call p gra g2 (Init_gen_rand S)"
    using init_gen_rand_independent [OF wf] by simp
  then have a: "run p gra g1 (Init_gen_rand S # C) = run p gra g2 (Init_gen_rand S # C)"
    by (rule run_seeded)
  have "do_call p gra h1 (Init_by_array K) = do_call p gra h2 (Init_by_array K)"
    using init_by_array_independent [of p K "int (length K)" h1 h2] by simp
  then have b: "run p gra h1 (Init_by_array K # C) = run p gra h2 (Init_by_array K # C)"
    by (rule run_seeded)
  have c: "list_all2 (\<lambda>a b. op_eq p (snd a) (snd b)) tr tr" for tr :: "(drawn \<times> sfmt_t) list"
    by (simp add: list_all2_same op_eq_refl)
  show ?thesis
    unfolding a b using c run_same by simp
qed

theorem determinism_witness:
  "wf_sfmt params607 \<lparr>state = replicate 20 0, idx = 0\<rparr>
   \<and> wf_sfmt params607 \<lparr>state = replicate 20 7, idx = 5\<rparr>
   \<and> run params607 (\<lambda>st n. (st, st)) \<lparr>state = replicate 20 0, idx = 0\<rparr>
        [Init_gen_rand 1234, Fill_array32 20, Fill_array64 10, Init_by_array [1, 2], Fill_array32 24]
     = run params607 (\<lambda>st n. (st, st)) \<lparr>state = replicate 20 7, idx = 5\<rparr>
        [Init_gen_rand 1234, Fill_array32 20, Fill_array64 10, Init_by_array [1, 2], Fill_array32 24]
   \<and> list_all2 (\<lambda>a b. op_eq params607 (snd a) (snd b))
        (fst (run params607 (\<lambda>st n. (st, st)) \<lparr>state = replicate 20 0, idx = 0\<rparr>
           [Init_gen_rand 1234, Fill_array32 20, Fill_array64 10, Init_by_array [1, 2], Fill_array32 24]))
        (fst (run params607 (\<lambda>st n. (st, st)) \<lparr>state = replicate 20 7, idx = 5\<rparr>
           [Init_gen_rand 1234, Fill_array32 20, Fill_array64 10, Init_by_array [1, 2], Fill_array32 24]))"
proof -
  have wf: "wf_sfmt params607 \<lparr>state = replicate 20 0, idx = 0\<rparr>"
    "wf_sfmt params607 \<lparr>state = replicate 20 7, idx = 5\<rparr>"
    by (simp_all add: wf_sfmt_def SFMT_N32_def SFMT_N_def params607_def)
  from determinism [OF wf, of "\<lambda>st n. (st, st)" 1234
      "[Fill_array32 20, Fill_array64 10, Init_by_array [1, 2], Fill_array32 24]"] wf
  show ?thesis by blast
qed

end
